theory Spec2Isabelle
  imports Complex_Main "HOL-Library.Sublist"
begin

section \<open>The video pipeline of helper.py\<close>

text \<open>
  The pipeline talks to four collaborators that are not part of the repository: the
  Streamlit widgets, the OpenCV capture, the YOLO model and the YouTube resolver. Each of
  them is a parameter of the model, so every theorem holds for every behaviour of the
  collaborator that its hypotheses admit. An exception is its message (what \<open>str(e)\<close>
  gives); a call that may raise returns a sum with the exception on the left.
  Python floats are modelled by rationals: the only float arithmetic of the program is
  \<open>720 * (9 / 16)\<close> and \<open>v / 100\<close>, and the values the theorems name
  (0.5625, 405.0, 0.25, 1.0) are binary fractions.
\<close>

type_synonym conf = rat
type_synonym exn = string

record frame =
  width :: int
  height :: int
  ident :: nat

text \<open>\<open>int(x)\<close> of a float truncates towards zero.\<close>

definition py_int :: "rat \<Rightarrow> int" where
  "py_int x = (if 0 \<le> x then \<lfloor>x\<rfloor> else \<lceil>x\<rceil>)"

text \<open>\<open>cv2.resize(image, (w, h))\<close>: the same picture with the requested size.\<close>

definition cv2_resize :: "frame \<Rightarrow> int \<times> int \<Rightarrow> frame" where
  "cv2_resize img dsize = img\<lparr>width := fst dsize, height := snd dsize\<rparr>"

text \<open>
  The two calls on the model: \<open>model.track(image, conf=conf, persist=True, tracker=tracker)\<close>
  and \<open>model.predict(image, conf=conf)\<close>. The model keeps the tracker's context between
  calls, so it is a function on its own state \<open>'m\<close>; its answer is the plotted picture
  \<open>res[0].plot()\<close> or the exception raised on the way.
\<close>

datatype request =
    Track frame conf bool "string option"
  | Predict frame conf

type_synonym 'm engine = "'m \<Rightarrow> request \<Rightarrow> (exn + frame) \<times> 'm"

datatype cap_source = DeviceIndex int | Path string

datatype event =
    OpenCall cap_source
  | Inference request
  | StFrameImage frame
  | SidebarError string

record 'm world =
  events :: "event list"
  engine_state :: 'm

definition emit :: "event \<Rightarrow> 'm world \<Rightarrow> 'm world" where
  "emit e w = w\<lparr>events := events w @ [e]\<rparr>"

subsection \<open>The capture\<close>

text \<open>
  A capture is what \<open>cv2.VideoCapture\<close> returned: whether it is opened, and what its next
  reads will give. \<open>read()\<close> gives \<open>(True, image)\<close>, or \<open>(False, None)\<close> at the end of the
  stream and on a transport failure, or raises; past the end of the script it gives
  \<open>(False, None)\<close>. The counters record the calls of \<open>read()\<close> and \<open>release()\<close>.
  A script is finite, so every run over it ends; a camera that never stops delivering
  frames is outside the model.
\<close>

datatype read_outcome = Got frame | NoFrame | ReadRaises exn

record capture =
  is_opened :: bool
  script :: "read_outcome list"
  reads :: nat
  releases :: nat

definition cap_read :: "capture \<Rightarrow> (exn + frame option) \<times> capture" where
  "cap_read c =
     (case script c of
        [] \<Rightarrow> (Inr None, c\<lparr>reads := reads c + 1\<rparr>)
      | Got f # r \<Rightarrow> (Inr (Some f), c\<lparr>script := r, reads := reads c + 1\<rparr>)
      | NoFrame # r \<Rightarrow> (Inr None, c\<lparr>script := r, reads := reads c + 1\<rparr>)
      | ReadRaises e # r \<Rightarrow> (Inl e, c\<lparr>script := r, reads := reads c + 1\<rparr>))"

definition cap_release :: "capture \<Rightarrow> capture" where
  "cap_release c = c\<lparr>is_opened := False, releases := releases c + 1\<rparr>"

subsection \<open>The widgets\<close>

record ui =
  radio :: "string \<Rightarrow> string list \<Rightarrow> string"
  text_input :: "string \<Rightarrow> string"
  button :: "string \<Rightarrow> bool"
  selectbox :: "string \<Rightarrow> string list \<Rightarrow> string"

text \<open>A radio group and a select box return one of the options they were given.\<close>

definition widgets_ok :: "ui \<Rightarrow> bool" where
  "widgets_ok u \<longleftrightarrow>
     (\<forall>l opts. opts \<noteq> [] \<longrightarrow> radio u l opts \<in> set opts \<and> selectbox u l opts \<in> set opts)"

subsection \<open>display_tracker_options\<close>

definition display_tracker_options :: "ui \<Rightarrow> bool \<times> string option" where
  "display_tracker_options u =
     (let display_tracker = radio u ''Display Tracker'' [''Yes'', ''No''];
          is_display_tracker = (if display_tracker = ''Yes'' then True else False)
      in if is_display_tracker
         then (let tracker_type = radio u ''Tracker'' [''bytetrack.yaml'', ''botsort.yaml'']
               in (is_display_tracker, Some tracker_type))
         else (is_display_tracker, None))"

subsection \<open>_display_detected_frames\<close>

text \<open>\<open>is_display_tracking\<close> defaults to \<open>None\<close>, which the \<open>if\<close> takes as false.\<close>

definition truthy :: "bool option \<Rightarrow> bool" where
  "truthy b = (case b of None \<Rightarrow> False | Some v \<Rightarrow> v)"

definition build_request :: "conf \<Rightarrow> frame \<Rightarrow> bool option \<Rightarrow> string option \<Rightarrow> request" where
  "build_request cf img is_display_tracking tracker =
     (let img1 = cv2_resize img (720, py_int (720 * (9 / 16)))
      in if truthy is_display_tracking
         then Track img1 cf True tracker
         else Predict img1 cf)"

text \<open>
  The result is the exception that left the function, if any, and the world after it: the
  call on the model is recorded before its outcome is known, the picture is shown only
  when the model returned one.
\<close>

definition display_detected_frames ::
  "conf \<Rightarrow> 'm engine \<Rightarrow> frame \<Rightarrow> bool option \<Rightarrow> string option \<Rightarrow> 'm world
     \<Rightarrow> exn option \<times> 'm world" where
  "display_detected_frames cf model img is_display_tracking tracker w =
     (let req = build_request cf img is_display_tracking tracker;
          (res, m1) = model (engine_state w) req;
          w1 = (emit (Inference req) w)\<lparr>engine_state := m1\<rparr>
      in case res of
           Inl e \<Rightarrow> (Some e, w1)
         | Inr detected_image \<Rightarrow> (None, emit (StFrameImage detected_image) w1))"

subsection \<open>The read loop\<close>

text \<open>
  The loop that every \<open>play_*\<close> function repeats:
  \<^verbatim>\<open>
      while vid_cap.isOpened():
          success, image = vid_cap.read()
          if success:
              _display_detected_frames(conf, model, st_frame, image, is_display_tracker, tracker)
          else:
              vid_cap.release()
              break
  \<close>
  It returns the exception that left it, if any, the capture and the world.
  \<open>st.empty()\<close> and the caption of the picture have no part in it.
\<close>

function frame_loop ::
  "conf \<Rightarrow> 'm engine \<Rightarrow> bool option \<Rightarrow> string option \<Rightarrow> capture \<Rightarrow> 'm world
     \<Rightarrow> exn option \<times> capture \<times> 'm world" where
  "frame_loop cf model trk tracker vid_cap w =
     (if \<not> is_opened vid_cap then (None, vid_cap, w)
      else case cap_read vid_cap of
             (Inl e, c1) \<Rightarrow> (Some e, c1, w)
           | (Inr None, c1) \<Rightarrow> (None, cap_release c1, w)
           | (Inr (Some img), c1) \<Rightarrow>
               (case display_detected_frames cf model img trk tracker w of
                  (Some e, w1) \<Rightarrow> (Some e, c1, w1)
                | (None, w1) \<Rightarrow> frame_loop cf model trk tracker c1 w1))"
  by pat_completeness auto
termination
  by (relation "measure (\<lambda>(cf, model, trk, tracker, vid_cap, w). length (script vid_cap))")
     (auto simp: cap_read_def split: list.splits read_outcome.splits)

subsection \<open>The try block of the play functions\<close>

text \<open>
  The four \<open>play_*\<close> functions share the body of their \<open>try\<close>, up to the source that is
  opened and the text of the message:
  \<^verbatim>\<open>
      try:
          vid_cap = cv2.VideoCapture(src)
          st_frame = st.empty()
          while vid_cap.isOpened(): ...
      except Exception as e:
          st.sidebar.error(msg + str(e))
  \<close>
  The result is the capture that was obtained, if any, as the run left it, and the world.
\<close>

definition try_capture ::
  "string \<Rightarrow> conf \<Rightarrow> 'm engine \<Rightarrow> bool \<Rightarrow> string option \<Rightarrow> (cap_source \<Rightarrow> exn + capture)
     \<Rightarrow> cap_source \<Rightarrow> 'm world \<Rightarrow> capture option \<times> 'm world" where
  "try_capture msg cf model is_display_tracker tracker VideoCapture src w =
     (let w0 = emit (OpenCall src) w
      in case VideoCapture src of
           Inl e \<Rightarrow> (None, emit (SidebarError (msg @ e)) w0)
         | Inr vid_cap \<Rightarrow>
             (case frame_loop cf model (Some is_display_tracker) tracker vid_cap w0 of
                (Some e, c, w1) \<Rightarrow> (Some c, emit (SidebarError (msg @ e)) w1)
              | (None, c, w1) \<Rightarrow> (Some c, w1)))"

subsection \<open>settings.py\<close>

definition WEBCAM_PATH :: int where
  "WEBCAM_PATH = 0"

text \<open>\<open>VIDEO_DIR / 'tower.mp4'\<close>, with \<open>ROOT\<close> the current directory.\<close>

definition VIDEOS_DICT :: "(string \<times> string) list" where
  "VIDEOS_DICT = [(''Tower'', ''videos/tower.mp4'')]"

text \<open>\<open>str(d.get(k))\<close>: a missing key gives \<open>None\<close>, printed as such.\<close>

definition str_get :: "(string \<times> string) list \<Rightarrow> string \<Rightarrow> string" where
  "str_get d k = (case map_of d k of None \<Rightarrow> ''None'' | Some p \<Rightarrow> p)"

subsection \<open>play_stored_video, play_webcam, play_rtsp_stream\<close>

definition play_stored_video ::
  "conf \<Rightarrow> 'm engine \<Rightarrow> ui \<Rightarrow> (cap_source \<Rightarrow> exn + capture) \<Rightarrow> 'm world
     \<Rightarrow> capture option \<times> 'm world" where
  "play_stored_video cf model u VideoCapture w =
     (let source_vid = selectbox u ''Choose a video...'' (map fst VIDEOS_DICT);
          (is_display_tracker, tracker) = display_tracker_options u
      in if button u ''Detect Video Objects''
         then try_capture ''Error loading video: '' cf model is_display_tracker tracker
                VideoCapture (Path (str_get VIDEOS_DICT source_vid)) w
         else (None, w))"

definition play_webcam ::
  "conf \<Rightarrow> 'm engine \<Rightarrow> ui \<Rightarrow> (cap_source \<Rightarrow> exn + capture) \<Rightarrow> 'm world
     \<Rightarrow> capture option \<times> 'm world" where
  "play_webcam cf model u VideoCapture w =
     (let source_webcam = WEBCAM_PATH;
          (is_display_tracker, tracker) = display_tracker_options u
      in if button u ''Detect Objects''
         then try_capture ''Error loading video: '' cf model is_display_tracker tracker
                VideoCapture (DeviceIndex source_webcam) w
         else (None, w))"

definition play_rtsp_stream ::
  "conf \<Rightarrow> 'm engine \<Rightarrow> ui \<Rightarrow> (cap_source \<Rightarrow> exn + capture) \<Rightarrow> 'm world
     \<Rightarrow> capture option \<times> 'm world" where
  "play_rtsp_stream cf model u VideoCapture w =
     (let source_rtsp = text_input u ''RTSP stream URL'';
          (is_display_tracker, tracker) = display_tracker_options u
      in if button u ''Detect Objects''
         then try_capture ''Error loading RTSP stream: '' cf model is_display_tracker tracker
                VideoCapture (Path source_rtsp) w
         else (None, w))"

subsection \<open>play_youtube_video\<close>

text \<open>
  \<open>YouTube(url)\<close> gives the streams of the video, or raises. A stream has a subtype
  (its file extension), a resolution, which the library keeps as a string such as
  \<open>720p\<close>, and an address. What \<open>yt.streams.filter(file_extension="mp4", res=720)\<close> keeps
  is decided by the library, not by the repository: the query is a parameter
  \<open>streams_filter\<close> of the function, called with the two arguments the code passes, the
  string \<open>mp4\<close> and the integer 720. \<open>first()\<close> gives the first stream kept or \<open>None\<close>;
  reading \<open>.url\<close> of \<open>None\<close> raises an AttributeError.
\<close>

record yt_stream =
  subtype :: string
  resolution :: string
  url :: string

type_synonym stream_query = "yt_stream list \<Rightarrow> string \<Rightarrow> int \<Rightarrow> yt_stream list"

definition first :: "'a list \<Rightarrow> 'a option" where
  "first xs = (case xs of [] \<Rightarrow> None | x # _ \<Rightarrow> Some x)"

definition none_has_no_url :: exn where
  "none_has_no_url =
     [CHR 0x27] @ ''NoneType'' @ [CHR 0x27] @ '' object has no attribute ''
       @ [CHR 0x27] @ ''url'' @ [CHR 0x27]"

definition play_youtube_video ::
  "conf \<Rightarrow> 'm engine \<Rightarrow> ui \<Rightarrow> (string \<Rightarrow> exn + yt_stream list) \<Rightarrow> stream_query
     \<Rightarrow> (cap_source \<Rightarrow> exn + capture) \<Rightarrow> 'm world \<Rightarrow> capture option \<times> 'm world" where
  "play_youtube_video cf model u YouTube streams_filter VideoCapture w =
     (let source_youtube = text_input u ''YouTube Video URL'';
          (is_display_tracker, tracker) = display_tracker_options u
      in if button u ''Detect Objects''
         then (case YouTube source_youtube of
                 Inl e \<Rightarrow> (None, emit (SidebarError (''Error loading video: '' @ e)) w)
               | Inr streams \<Rightarrow>
                   (case first (streams_filter streams ''mp4'' 720) of
                      None \<Rightarrow>
                        (None, emit (SidebarError (''Error loading video: '' @ none_has_no_url)) w)
                    | Some stream \<Rightarrow>
                        try_capture ''Error loading video: '' cf model is_display_tracker tracker
                          VideoCapture (Path (url stream)) w))
         else (None, w))"

subsection \<open>What a run showed\<close>

fun emitted :: "event list \<Rightarrow> frame list" where
  "emitted [] = []"
| "emitted (StFrameImage f # es) = f # emitted es"
| "emitted (_ # es) = emitted es"

fun diagnostics :: "event list \<Rightarrow> string list" where
  "diagnostics [] = []"
| "diagnostics (SidebarError m # es) = m # diagnostics es"
| "diagnostics (_ # es) = diagnostics es"

fun inference_calls :: "event list \<Rightarrow> request list" where
  "inference_calls [] = []"
| "inference_calls (Inference r # es) = r # inference_calls es"
| "inference_calls (_ # es) = inference_calls es"

fun open_calls :: "event list \<Rightarrow> cap_source list" where
  "open_calls [] = []"
| "open_calls (OpenCall s # es) = s # open_calls es"
| "open_calls (_ # es) = open_calls es"

fun request_frame :: "request \<Rightarrow> frame" where
  "request_frame (Track f _ _ _) = f"
| "request_frame (Predict f _) = f"

fun request_conf :: "request \<Rightarrow> conf" where
  "request_conf (Track _ c _ _) = c"
| "request_conf (Predict _ c) = c"

definition init_world :: "'m \<Rightarrow> 'm world" where
  "init_world m = \<lparr>events = [], engine_state = m\<rparr>"

section \<open>The zip batch of apps/upload2.py\<close>

text \<open>
  The page shows what it does through \<open>st.error\<close>, \<open>st.write\<close>, \<open>st.columns\<close> and
  \<open>st.image\<close>; the calls of \<open>predict\<close> are recorded with them. Headings and titles carry
  nothing and are left out. An opened picture and a plotted one are both a \<open>frame\<close>;
  \<open>res[0].plot()[:, :, ::-1]\<close> is part of what the predictor returns. The field
  \<open>source_radio\<close> of a page is its \<open>st.sidebar.radio\<close>, named after the variable that
  receives its value.
\<close>

type_synonym bytes = "nat list"

datatype app_event =
    StError string
  | StWrite string
  | StColumns nat
  | StImage frame string
  | PredictCall frame conf

type_synonym predictor = "frame \<Rightarrow> conf \<Rightarrow> exn + frame"

record page =
  slider :: "string \<Rightarrow> int \<Rightarrow> int \<Rightarrow> int \<Rightarrow> int"
  source_radio :: "string \<Rightarrow> string list \<Rightarrow> string"
  file_uploader :: "string \<Rightarrow> bytes option"

record backend =
  YOLO :: "string \<Rightarrow> exn + predictor"
  ZipFile :: "bytes \<Rightarrow> exn + (string \<times> (exn + bytes)) list"
  Image_open :: "bytes \<Rightarrow> exn + frame"

definition IMAGE :: string where
  "IMAGE = ''Image''"

definition DETECTION_MODEL :: string where
  "DETECTION_MODEL = ''weights/best (1).pt''"

definition load_model :: "backend \<Rightarrow> string \<Rightarrow> exn + predictor" where
  "load_model b model_path = YOLO b model_path"

subsection \<open>extract_zip_in_memory\<close>

text \<open>
  \<open>ZipFile(zip_file, 'r')\<close> raises or gives the entries of the archive; each entry has a
  name, and reading it gives its bytes or raises.
\<close>

fun read_entries ::
  "(string \<times> (exn + bytes)) list \<Rightarrow> (string \<times> bytes) list \<Rightarrow> exn + (string \<times> bytes) list" where
  "read_entries [] extracted_files = Inr extracted_files"
| "read_entries ((filename, content) # infolist) extracted_files =
     (case content of
        Inl e \<Rightarrow> Inl e
      | Inr file_data \<Rightarrow> read_entries infolist (extracted_files @ [(filename, file_data)]))"

definition extract_zip_in_memory :: "backend \<Rightarrow> bytes \<Rightarrow> exn + (string \<times> bytes) list" where
  "extract_zip_in_memory b zip_file =
     (case ZipFile b zip_file of
        Inl e \<Rightarrow> Inl e
      | Inr infolist \<Rightarrow> read_entries infolist [])"

subsection \<open>The file names that are pictures\<close>

text \<open>\<open>str.lower()\<close> on the letters A to Z; the other bytes of a name stay as they are.\<close>

definition char_lower :: "char \<Rightarrow> char" where
  "char_lower c =
     (let n = (of_char c :: nat)
      in if 65 \<le> n \<and> n \<le> 90 then char_of (n + 32) else c)"

definition lower :: "string \<Rightarrow> string" where
  "lower s = map char_lower s"

definition endswith :: "string \<Rightarrow> string list \<Rightarrow> bool" where
  "endswith s exts = list_ex (\<lambda>e. suffix e s) exts"

definition is_image_name :: "string \<Rightarrow> bool" where
  "is_image_name file_name =
     endswith (lower file_name) [''.jpg'', ''.jpeg'', ''.png'', ''.bmp'', ''.webp'']"

subsection \<open>The detection loop\<close>

definition processing_error :: "string \<Rightarrow> exn \<Rightarrow> string" where
  "processing_error file_name ex = ''Error processing image '' @ file_name @ '': '' @ ex"

fun detect_images ::
  "backend \<Rightarrow> predictor \<Rightarrow> conf \<Rightarrow> (string \<times> bytes) list \<Rightarrow> (string \<times> frame) list
     \<Rightarrow> app_event list \<Rightarrow> (string \<times> frame) list \<times> app_event list" where
  "detect_images b detection_model confidence [] detected_images evs = (detected_images, evs)"
| "detect_images b detection_model confidence ((file_name, file_data) # extracted_files)
       detected_images evs =
     (if is_image_name file_name
      then (case Image_open b file_data of
              Inl ex \<Rightarrow>
                detect_images b detection_model confidence extracted_files detected_images
                  (evs @ [StError (processing_error file_name ex)])
            | Inr uploaded_image \<Rightarrow>
                (case detection_model uploaded_image confidence of
                   Inl ex \<Rightarrow>
                     detect_images b detection_model confidence extracted_files detected_images
                       (evs @ [PredictCall uploaded_image confidence,
                               StError (processing_error file_name ex)])
                 | Inr detected_image \<Rightarrow>
                     detect_images b detection_model confidence extracted_files
                       (detected_images @ [(file_name, detected_image)])
                       (evs @ [PredictCall uploaded_image confidence])))
      else detect_images b detection_model confidence extracted_files detected_images evs)"

subsection \<open>The grid\<close>

definition grid_size :: nat where
  "grid_size = 3"

definition caption_of :: "string \<Rightarrow> string" where
  "caption_of file_name = ''Detected Image: '' @ file_name"

definition show_cell :: "(string \<times> frame) list \<Rightarrow> nat \<Rightarrow> nat \<Rightarrow> app_event list \<Rightarrow> app_event list" where
  "show_cell detected_images i j evs =
     (let num_images = length detected_images;
          index = i * grid_size + j
      in if index < num_images
         then (let (file_name, detected_image) = detected_images ! index
               in evs @ [StImage detected_image (caption_of file_name)])
         else evs @ [StWrite []])"

definition show_row :: "(string \<times> frame) list \<Rightarrow> nat \<Rightarrow> app_event list \<Rightarrow> app_event list" where
  "show_row detected_images i evs =
     fold (show_cell detected_images i) [0..<grid_size] (evs @ [StColumns grid_size])"

definition show_grid :: "(string \<times> frame) list \<Rightarrow> app_event list \<Rightarrow> app_event list" where
  "show_grid detected_images evs =
     (let num_images = length detected_images;
          rows = (num_images + grid_size - 1) div grid_size
      in fold (show_row detected_images) [0..<rows] evs)"

subsection \<open>app\<close>

definition confidence_of :: "page \<Rightarrow> conf" where
  "confidence_of pg = of_int (slider pg ''Select Model Confidence'' 25 100 40) / 100"

definition app :: "page \<Rightarrow> backend \<Rightarrow> app_event list" where
  "app pg b =
     (let confidence = confidence_of pg
      in case load_model b DETECTION_MODEL of
           Inl ex \<Rightarrow>
             [StError (''Unable to load detection model. Check the specified path: ''
                         @ DETECTION_MODEL),
              StError ex]
         | Inr detection_model \<Rightarrow>
             if source_radio pg ''Select Source'' [IMAGE] = IMAGE
             then (case file_uploader pg ''Upload a ZIP file containing images...'' of
                     None \<Rightarrow> []
                   | Some zip_file \<Rightarrow>
                       (case extract_zip_in_memory b zip_file of
                          Inl ex \<Rightarrow>
                            [StError (''An error occurred while extracting ZIP file: '' @ ex)]
                        | Inr extracted_files \<Rightarrow>
                            (let (detected_images, evs) =
                                   detect_images b detection_model confidence extracted_files [] []
                             in if detected_images \<noteq> []
                                then show_grid detected_images (evs @ [StWrite ''Detected Images:''])
                                else evs)))
             else [])"

subsection \<open>What the page showed\<close>

fun shown :: "app_event list \<Rightarrow> (frame \<times> string) list" where
  "shown [] = []"
| "shown (StImage p c # es) = (p, c) # shown es"
| "shown (_ # es) = shown es"

fun errors :: "app_event list \<Rightarrow> string list" where
  "errors [] = []"
| "errors (StError m # es) = m # errors es"
| "errors (_ # es) = errors es"

fun predict_calls :: "app_event list \<Rightarrow> (frame \<times> conf) list" where
  "predict_calls [] = []"
| "predict_calls (PredictCall i c # es) = (i, c) # predict_calls es"
| "predict_calls (_ # es) = predict_calls es"

text \<open>What the \<open>try\<close> of the loop does with one file: the picture it plots, or the exception.\<close>

definition process :: "backend \<Rightarrow> predictor \<Rightarrow> conf \<Rightarrow> bytes \<Rightarrow> exn + frame" where
  "process b detection_model confidence file_data =
     (case Image_open b file_data of
        Inl ex \<Rightarrow> Inl ex
      | Inr uploaded_image \<Rightarrow> detection_model uploaded_image confidence)"

section \<open>Concrete runs\<close>

text \<open>
  A camera frame of 1920 by 1080, a stored video of ten of them, a capture that did not
  open, a model that answers every request and one that raises on the frame with a
  given number, and a user who presses every button, takes the first option of every
  widget and says whether the tracker is wanted. The marking model writes on the picture
  it returns (it adds 100 to its number) and raises on its call of a given rank, counted
  from 0 in its own state, whatever the frame.
\<close>

definition camera_frame :: "nat \<Rightarrow> frame" where
  "camera_frame k = \<lparr>width = 1920, height = 1080, ident = k\<rparr>"

definition ten_frames :: "frame list" where
  "ten_frames = map camera_frame [1, 2, 3, 4, 5, 6, 7, 8, 9, 10]"

definition stored_video :: "frame list \<Rightarrow> capture" where
  "stored_video fs = \<lparr>is_opened = True, script = map Got fs, reads = 0, releases = 0\<rparr>"

definition not_connected :: capture where
  "not_connected = \<lparr>is_opened = False, script = [], reads = 0, releases = 0\<rparr>"

definition healthy_engine :: "nat engine" where
  "healthy_engine m req = (Inr (request_frame req), Suc m)"

definition faulty_engine :: "nat \<Rightarrow> nat engine" where
  "faulty_engine bad m req =
     (if ident (request_frame req) = bad then (Inl ''engine fault'', m)
      else (Inr (request_frame req), Suc m))"

definition annotate :: "frame \<Rightarrow> frame" where
  "annotate f = f\<lparr>ident := ident f + 100\<rparr>"

definition marking_engine :: "nat \<Rightarrow> nat engine" where
  "marking_engine bad m req =
     (if m = bad then (Inl ''engine fault'', Suc m)
      else (Inr (annotate (request_frame req)), Suc m))"

definition operator :: "bool \<Rightarrow> ui" where
  "operator tracking =
     \<lparr>radio = (\<lambda>l opts. if l = ''Display Tracker'' \<and> \<not> tracking then last opts else hd opts),
      text_input = (\<lambda>l. ''rtsp://10.0.0.7/live''),
      button = (\<lambda>l. True),
      selectbox = (\<lambda>l opts. hd opts)\<rparr>"

text \<open>
  A resolver that finds the same streams for every link, four streams on offer, and a
  query that keeps every stream.
\<close>

definition resolves_to :: "yt_stream list \<Rightarrow> string \<Rightarrow> exn + yt_stream list" where
  "resolves_to ss link = Inr ss"

definition offered :: "yt_stream list" where
  "offered =
     [\<lparr>subtype = ''webm'', resolution = ''720p'', url = ''https://cdn/a.webm''\<rparr>,
      \<lparr>subtype = ''mp4'', resolution = ''360p'', url = ''https://cdn/b.mp4''\<rparr>,
      \<lparr>subtype = ''mp4'', resolution = ''720p'', url = ''https://cdn/c.mp4''\<rparr>,
      \<lparr>subtype = ''mp4'', resolution = ''720p'', url = ''https://cdn/d.mp4''\<rparr>]"

definition keeps_all :: stream_query where
  "keeps_all ss file_extension res = ss"

text \<open>
  The query of the library as its source has it (pytubefix, \<open>StreamQuery.filter\<close>; the
  library is not part of the repository): a filter on the resolution is added only when
  \<open>res\<close> is a string or a list of strings, and compares it with the resolution string of
  the stream; the file extension is compared with the subtype. Called with an integer
  \<open>res\<close>, it filters on the file extension alone.
\<close>

definition pytubefix_filter :: stream_query where
  "pytubefix_filter ss file_extension res = filter (\<lambda>s. subtype s = file_extension) ss"

text \<open>The capture that \<open>cv2.VideoCapture\<close> returns for every source, in a concrete run.\<close>

definition always_opens :: "capture \<Rightarrow> cap_source \<Rightarrow> exn + capture" where
  "always_opens c src = Inr c"

section \<open>What the theorems speak of\<close>

text \<open>
  The request that a play function makes for a frame, under the configuration of the
  sidebar. What the model does with a sequence of requests, from a given state: the
  pictures it returns up to its first exception, that exception if there is one, and its
  state at the end; each request is put to the state the call before it left. The events
  of frames that went through are an inference and a picture each.
\<close>

definition request_of :: "conf \<Rightarrow> ui \<Rightarrow> frame \<Rightarrow> request" where
  "request_of cf u f =
     build_request cf f (Some (fst (display_tracker_options u)))
       (snd (display_tracker_options u))"

fun engine_run :: "'m engine \<Rightarrow> 'm \<Rightarrow> request list \<Rightarrow> frame list \<times> exn option \<times> 'm" where
  "engine_run model m [] = ([], None, m)"
| "engine_run model m (r # rs) =
     (case model m r of
        (Inl e, m1) \<Rightarrow> ([], Some e, m1)
      | (Inr d, m1) \<Rightarrow>
          (case engine_run model m1 rs of (ds, x, m2) \<Rightarrow> (d # ds, x, m2)))"

fun frame_events :: "request list \<Rightarrow> frame list \<Rightarrow> event list" where
  "frame_events (r # rs) (d # ds) = Inference r # StFrameImage d # frame_events rs ds"
| "frame_events _ _ = []"

fun loop_event :: "conf \<Rightarrow> bool option \<Rightarrow> string option \<Rightarrow> event \<Rightarrow> bool" where
  "loop_event cf trk tr (Inference r) = (\<exists>f. r = build_request cf f trk tr)"
| "loop_event cf trk tr (StFrameImage d) = True"
| "loop_event cf trk tr _ = False"

text \<open>
  A request follows the configuration of the user when it is a \<open>track\<close> call with
  \<open>persist=True\<close> and the tracker chosen in the sidebar if the tracker was asked for,
  a \<open>predict\<close> call if it was not, and carries the confidence of the run. A run stops
  with given pictures, requests, diagnostic and unread script when these are the pictures
  it showed, the requests it made and its only diagnostic, in their order, and the
  capture it leaves still has that script to give.
\<close>

fun request_follows :: "ui \<Rightarrow> conf \<Rightarrow> request \<Rightarrow> bool" where
  "request_follows u cf (Track f c persist tracker) =
     (radio u ''Display Tracker'' [''Yes'', ''No''] = ''Yes'' \<and> c = cf \<and> persist
      \<and> tracker = Some (radio u ''Tracker'' [''bytetrack.yaml'', ''botsort.yaml'']))"
| "request_follows u cf (Predict f c) =
     (radio u ''Display Tracker'' [''Yes'', ''No''] \<noteq> ''Yes'' \<and> c = cf)"

definition stops_with ::
  "capture option \<times> 'm world \<Rightarrow> frame list \<Rightarrow> request list \<Rightarrow> string \<Rightarrow> read_outcome list
     \<Rightarrow> bool" where
  "stops_with run ds reqs diagnostic unread \<longleftrightarrow>
     emitted (events (snd run)) = ds
     \<and> inference_calls (events (snd run)) = reqs
     \<and> diagnostics (events (snd run)) = [diagnostic]
     \<and> map_option script (fst run) = Some unread"

section \<open>The zip batch: what the theorems speak of\<close>

text \<open>
  What one entry of the archive contributes: the picture that is shown for it, the
  diagnostic that is written for it, and the call of \<open>predict\<close> made for it. An entry
  whose name is not that of a picture contributes nothing. An archive is readable when
  every entry gives its bytes. The cell of the grid that shows the picture number \<open>k\<close>.
\<close>

definition detected_of ::
  "backend \<Rightarrow> predictor \<Rightarrow> conf \<Rightarrow> string \<times> bytes \<Rightarrow> (string \<times> frame) list" where
  "detected_of b detection_model confidence entry =
     (if is_image_name (fst entry)
      then (case process b detection_model confidence (snd entry) of
              Inl ex \<Rightarrow> []
            | Inr detected_image \<Rightarrow> [(fst entry, detected_image)])
      else [])"

definition error_of ::
  "backend \<Rightarrow> predictor \<Rightarrow> conf \<Rightarrow> string \<times> bytes \<Rightarrow> string list" where
  "error_of b detection_model confidence entry =
     (if is_image_name (fst entry)
      then (case process b detection_model confidence (snd entry) of
              Inl ex \<Rightarrow> [processing_error (fst entry) ex]
            | Inr detected_image \<Rightarrow> [])
      else [])"

definition submitted_of :: "backend \<Rightarrow> conf \<Rightarrow> string \<times> bytes \<Rightarrow> (frame \<times> conf) list" where
  "submitted_of b confidence entry =
     (if is_image_name (fst entry)
      then (case Image_open b (snd entry) of
              Inl ex \<Rightarrow> []
            | Inr uploaded_image \<Rightarrow> [(uploaded_image, confidence)])
      else [])"

definition readable :: "(string \<times> bytes) list \<Rightarrow> (string \<times> (exn + bytes)) list" where
  "readable files = map (\<lambda>entry. (fst entry, Inr (snd entry))) files"

definition cell :: "(string \<times> frame) list \<Rightarrow> nat \<Rightarrow> frame \<times> string" where
  "cell d k = (snd (d ! k), caption_of (fst (d ! k)))"

text \<open>
  A concrete page: a model that raises on picture 13, an archive of seven entries, a
  picture library that cannot open empty data, and a visitor who sets the slider and
  uploads the archive.
\<close>

definition picture :: "nat \<Rightarrow> frame" where
  "picture k = \<lparr>width = 640, height = 480, ident = k\<rparr>"

definition toy_predictor :: predictor where
  "toy_predictor img confidence =
     (if ident img = 13 then Inl ''engine fault'' else Inr img)"

definition toy_archive :: "(string \<times> bytes) list" where
  "toy_archive =
     [(''a.JPG'', [1]), (''notes.txt'', [2]), (''b.png'', [13]), (''c.WebP'', [4]),
      (''d.bmp'', []), (''e.jpeg'', [6]), (''f.gif'', [7])]"

definition toy_backend :: backend where
  "toy_backend =
     \<lparr>YOLO = (\<lambda>model_path. Inr toy_predictor),
      ZipFile = (\<lambda>zip_file. Inr (readable toy_archive)),
      Image_open = (\<lambda>file_data. case file_data of
                       [] \<Rightarrow> Inl ''cannot identify image file''
                     | k # rest \<Rightarrow> Inr (picture k))\<rparr>"

definition visitor :: "int \<Rightarrow> page" where
  "visitor v =
     \<lparr>slider = (\<lambda>l lo hi d. v),
      source_radio = (\<lambda>l opts. hd opts),
      file_uploader = (\<lambda>l. Some [80, 75, 3, 4])\<rparr>"

section \<open>The read loop, step by step\<close>

declare frame_loop.simps [simp del]

lemma py_int_target: "py_int (720 * (9 / 16)) = 405"
  by (simp add: py_int_def)

lemma round_target: "round (720 * (9 / 16) :: rat) = 405"
proof -
  have "720 * (9 / 16) = (of_int 405 :: rat)" by simp
  then show ?thesis by (simp only: round_of_int)
qed

lemma emitted_append: "emitted (xs @ ys) = emitted xs @ emitted ys"
  by (induction xs rule: emitted.induct) simp_all

lemma diagnostics_append: "diagnostics (xs @ ys) = diagnostics xs @ diagnostics ys"
  by (induction xs rule: diagnostics.induct) simp_all

lemma inference_calls_append:
  "inference_calls (xs @ ys) = inference_calls xs @ inference_calls ys"
  by (induction xs rule: inference_calls.induct) simp_all

lemma open_calls_append: "open_calls (xs @ ys) = open_calls xs @ open_calls ys"
  by (induction xs rule: open_calls.induct) simp_all

lemma display_cases:
  assumes "display_detected_frames cf model img trk tr w = (r, w1)"
  shows "(\<exists>e m1. r = Some e \<and> model (engine_state w) (build_request cf img trk tr) = (Inl e, m1)
            \<and> w1 = \<lparr>events = events w @ [Inference (build_request cf img trk tr)],
                     engine_state = m1\<rparr>)
       \<or> (\<exists>d m1. r = None \<and> model (engine_state w) (build_request cf img trk tr) = (Inr d, m1)
            \<and> w1 = \<lparr>events = events w @ [Inference (build_request cf img trk tr),
                                           StFrameImage d],
                     engine_state = m1\<rparr>)"
  using assms
  by (cases w) (auto simp: display_detected_frames_def emit_def Let_def split: prod.splits sum.splits)

lemma frame_loop_closed:
  "\<not> is_opened c \<Longrightarrow> frame_loop cf model trk tr c w = (None, c, w)"
  by (simp add: frame_loop.simps)

lemma frame_loop_exhausted:
  "is_opened c \<Longrightarrow> script c = [] \<Longrightarrow>
   frame_loop cf model trk tr c w = (None, cap_release (c\<lparr>reads := reads c + 1\<rparr>), w)"
  by (simp add: frame_loop.simps cap_read_def)

lemma frame_loop_NoFrame:
  "is_opened c \<Longrightarrow> script c = NoFrame # r \<Longrightarrow>
   frame_loop cf model trk tr c w =
     (None, cap_release (c\<lparr>script := r, reads := reads c + 1\<rparr>), w)"
  by (simp add: frame_loop.simps cap_read_def)

lemma frame_loop_ReadRaises:
  "is_opened c \<Longrightarrow> script c = ReadRaises e # r \<Longrightarrow>
   frame_loop cf model trk tr c w = (Some e, c\<lparr>script := r, reads := reads c + 1\<rparr>, w)"
  by (simp add: frame_loop.simps cap_read_def)

lemma frame_loop_Got:
  "is_opened c \<Longrightarrow> script c = Got f # r \<Longrightarrow>
   frame_loop cf model trk tr c w =
     (case display_detected_frames cf model f trk tr w of
        (Some e, w1) \<Rightarrow> (Some e, c\<lparr>script := r, reads := reads c + 1\<rparr>, w1)
      | (None, w1) \<Rightarrow> frame_loop cf model trk tr (c\<lparr>script := r, reads := reads c + 1\<rparr>) w1)"
  by (simp add: frame_loop.simps cap_read_def split: prod.splits option.splits)

lemma display_result:
  "display_detected_frames cf model f trk tr w =
     (case model (engine_state w) (build_request cf f trk tr) of
        (Inl e, m1) \<Rightarrow>
          (Some e, \<lparr>events = events w @ [Inference (build_request cf f trk tr)],
                    engine_state = m1\<rparr>)
      | (Inr d, m1) \<Rightarrow>
          (None, \<lparr>events = events w @ [Inference (build_request cf f trk tr), StFrameImage d],
                  engine_state = m1\<rparr>))"
  by (cases w)
     (simp add: display_detected_frames_def emit_def Let_def split: prod.splits sum.splits)

lemma engine_run_length: "engine_run model m rs = (ds, None, m1) \<Longrightarrow> length ds = length rs"
proof (induction rs arbitrary: m ds)
  case Nil
  then show ?case by simp
next
  case (Cons r rs)
  then show ?case by (auto split: prod.splits sum.splits)
qed

lemma engine_run_Cons:
  assumes "engine_run model m (r # rs) = (ds, None, m1)"
  obtains d m0 ds0 where "model m r = (Inr d, m0)" and "engine_run model m0 rs = (ds0, None, m1)"
    and "ds = d # ds0"
  using assms by (auto split: prod.splits sum.splits)

lemma frame_loop_answered:
  assumes "is_opened c" and "script c = map Got fs @ rest"
    and "engine_run model (engine_state w) (map (\<lambda>f. build_request cf f trk tr) fs)
           = (ds, None, m1)"
  shows "frame_loop cf model trk tr c w =
           frame_loop cf model trk tr (c\<lparr>script := rest, reads := reads c + length fs\<rparr>)
             \<lparr>events = events w @ frame_events (map (\<lambda>f. build_request cf f trk tr) fs) ds,
              engine_state = m1\<rparr>"
  using assms
proof (induction fs arbitrary: c w ds)
  case Nil
  then have "ds = []" "m1 = engine_state w" by simp_all
  moreover have "c\<lparr>script := rest, reads := reads c + 0\<rparr> = c"
    using Nil.prems(2) by (cases c) simp
  ultimately show ?case by (cases w) simp
next
  case (Cons f fs)
  let ?r = "build_request cf f trk tr"
  have "engine_run model (engine_state w) (?r # map (\<lambda>f. build_request cf f trk tr) fs)
          = (ds, None, m1)"
    using Cons.prems(3) by simp
  then obtain d m0 ds0 where
    ans: "model (engine_state w) ?r = (Inr d, m0)"
    and run: "engine_run model m0 (map (\<lambda>f. build_request cf f trk tr) fs) = (ds0, None, m1)"
    and ds: "ds = d # ds0"
    by (rule engine_run_Cons)
  let ?c1 = "c\<lparr>script := map Got fs @ rest, reads := reads c + 1\<rparr>"
  let ?w1 = "\<lparr>events = events w @ [Inference ?r, StFrameImage d], engine_state = m0\<rparr>"
  have step: "frame_loop cf model trk tr c w = frame_loop cf model trk tr ?c1 ?w1"
    using Cons.prems(1,2) ans by (simp add: frame_loop_Got display_result)
  have "is_opened ?c1" "script ?c1 = map Got fs @ rest"
    "engine_run model (engine_state ?w1) (map (\<lambda>f. build_request cf f trk tr) fs)
       = (ds0, None, m1)"
    using Cons.prems(1) run by simp_all
  from Cons.IH [OF this]
  have "frame_loop cf model trk tr ?c1 ?w1 =
          frame_loop cf model trk tr (?c1\<lparr>script := rest, reads := reads ?c1 + length fs\<rparr>)
            \<lparr>events = events ?w1 @ frame_events (map (\<lambda>f. build_request cf f trk tr) fs) ds0,
             engine_state = m1\<rparr>" .
  with step ds show ?case by simp
qed

lemma frame_loop_to_end:
  assumes "is_opened c" and "script c = map Got fs"
    and "engine_run model (engine_state w) (map (\<lambda>f. build_request cf f trk tr) fs)
           = (ds, None, m1)"
  shows "frame_loop cf model trk tr c w =
           (None,
            c\<lparr>is_opened := False, script := [], reads := reads c + length fs + 1,
              releases := releases c + 1\<rparr>,
            \<lparr>events = events w @ frame_events (map (\<lambda>f. build_request cf f trk tr) fs) ds,
             engine_state = m1\<rparr>)"
proof -
  have s: "script c = map Got fs @ []" using assms(2) by simp
  show ?thesis
    using frame_loop_answered [OF assms(1) s assms(3)] assms(1)
    by (simp add: frame_loop_exhausted cap_release_def)
qed

lemma frame_loop_to_fault:
  assumes "is_opened c" and "script c = map Got fs @ Got g # rest"
    and "engine_run model (engine_state w) (map (\<lambda>f. build_request cf f trk tr) fs)
           = (ds, None, m1)"
    and "model m1 (build_request cf g trk tr) = (Inl e, m2)"
  shows "frame_loop cf model trk tr c w =
           (Some e,
            c\<lparr>script := rest, reads := reads c + length fs + 1\<rparr>,
            \<lparr>events = events w @ frame_events (map (\<lambda>f. build_request cf f trk tr) fs) ds
                         @ [Inference (build_request cf g trk tr)],
             engine_state = m2\<rparr>)"
  using frame_loop_answered [OF assms(1) assms(2) assms(3)] assms(1) assms(4)
  by (simp add: frame_loop_Got display_result)

lemma frame_loop_events:
  assumes "script c = l" and "frame_loop cf model trk tr c w = (r, c1, w1)"
  shows "\<exists>new. events w1 = events w @ new \<and> (\<forall>e\<in>set new. loop_event cf trk tr e)"
  using assms
proof (induction l arbitrary: c w)
  case Nil
  then show ?case
    by (cases "is_opened c") (auto simp: frame_loop_closed frame_loop_exhausted)
next
  case (Cons x l)
  show ?case
  proof (cases "is_opened c")
    case False
    with Cons.prems show ?thesis by (auto simp: frame_loop_closed)
  next
    case True
    show ?thesis
    proof (cases x)
      case NoFrame
      with True Cons.prems show ?thesis by (auto simp: frame_loop_NoFrame)
    next
      case (ReadRaises e)
      with True Cons.prems show ?thesis by (auto simp: frame_loop_ReadRaises)
    next
      case (Got f)
      obtain r0 w0 where d: "display_detected_frames cf model f trk tr w = (r0, w0)"
        by (cases "display_detected_frames cf model f trk tr w")
      from display_cases [OF d] consider
        (raised) e m1 where "r0 = Some e"
          "w0 = \<lparr>events = events w @ [Inference (build_request cf f trk tr)],
                 engine_state = m1\<rparr>"
      | (shown) dd m1 where "r0 = None"
          "w0 = \<lparr>events = events w @ [Inference (build_request cf f trk tr), StFrameImage dd],
                 engine_state = m1\<rparr>"
        by blast
      then show ?thesis
      proof cases
        case raised
        with True Got Cons.prems d have "w1 = w0"
          by (simp add: frame_loop_Got)
        with raised show ?thesis
          by (intro exI [of _ "[Inference (build_request cf f trk tr)]"]) auto
      next
        case shown
        let ?c1 = "c\<lparr>script := l, reads := reads c + 1\<rparr>"
        from True Got Cons.prems d shown
        have "frame_loop cf model trk tr ?c1 w0 = (r, c1, w1)"
          by (simp add: frame_loop_Got)
        from Cons.IH [OF _ this] obtain new where
          "events w1 = events w0 @ new" "\<forall>e\<in>set new. loop_event cf trk tr e"
          by auto
        with shown show ?thesis
          by (intro exI [of _ "Inference (build_request cf f trk tr) # StFrameImage dd # new"])
             auto
      qed
    qed
  qed
qed

section \<open>A stored video that is read to its end\<close>

lemma emitted_frame_events:
  "length ds = length rs \<Longrightarrow> emitted (frame_events rs ds) = ds"
  by (induction rs ds rule: frame_events.induct) simp_all

lemma diagnostics_frame_events: "diagnostics (frame_events rs ds) = []"
  by (induction rs ds rule: frame_events.induct) simp_all

lemma inference_calls_frame_events:
  "length ds = length rs \<Longrightarrow> inference_calls (frame_events rs ds) = rs"
  by (induction rs ds rule: frame_events.induct) simp_all

lemma chosen_video:
  "widgets_ok u \<Longrightarrow> str_get VIDEOS_DICT (selectbox u l (map fst VIDEOS_DICT)) = ''videos/tower.mp4''"
  unfolding widgets_ok_def
proof -
  assume a: "\<forall>l opts. opts \<noteq> [] \<longrightarrow> radio u l opts \<in> set opts \<and> selectbox u l opts \<in> set opts"
  have "selectbox u l [''Tower''] \<in> set [''Tower'']"
    using a by blast
  then have "selectbox u l [''Tower''] = ''Tower''" by simp
  then show ?thesis by (simp add: VIDEOS_DICT_def str_get_def)
qed

lemma operator_ok: "widgets_ok (operator t)"
  by (simp add: widgets_ok_def operator_def)

lemma try_capture_to_end:
  assumes "VideoCapture src = Inr c" and "is_opened c" and "script c = map Got fs"
    and "engine_run model m (map (\<lambda>f. build_request cf f (Some b) tr) fs) = (ds, None, m1)"
  shows "try_capture msg cf model b tr VideoCapture src (init_world m) =
           (Some (c\<lparr>is_opened := False, script := [], reads := reads c + length fs + 1,
                    releases := releases c + 1\<rparr>),
            \<lparr>events = OpenCall src # frame_events (map (\<lambda>f. build_request cf f (Some b) tr) fs) ds,
             engine_state = m1\<rparr>)"
proof -
  let ?w0 = "emit (OpenCall src) (init_world m)"
  have "engine_run model (engine_state ?w0) (map (\<lambda>f. build_request cf f (Some b) tr) fs)
          = (ds, None, m1)"
    using assms(4) by (simp add: emit_def init_world_def)
  from frame_loop_to_end [OF assms(2) assms(3) this] assms(1)
  show ?thesis
    by (simp add: try_capture_def Let_def emit_def init_world_def)
qed

lemma try_capture_to_fault:
  assumes "VideoCapture src = Inr c" and "is_opened c"
    and "script c = map Got fs @ Got g # rest"
    and "engine_run model m (map (\<lambda>f. build_request cf f (Some b) tr) fs) = (ds, None, m1)"
    and "model m1 (build_request cf g (Some b) tr) = (Inl e, m2)"
  shows "try_capture msg cf model b tr VideoCapture src (init_world m) =
           (Some (c\<lparr>script := rest, reads := reads c + length fs + 1\<rparr>),
            \<lparr>events = OpenCall src
                       # frame_events (map (\<lambda>f. build_request cf f (Some b) tr) fs) ds
                       @ [Inference (build_request cf g (Some b) tr), SidebarError (msg @ e)],
             engine_state = m2\<rparr>)"
proof -
  let ?w0 = "emit (OpenCall src) (init_world m)"
  have "engine_run model (engine_state ?w0) (map (\<lambda>f. build_request cf f (Some b) tr) fs)
          = (ds, None, m1)"
    using assms(4) by (simp add: emit_def init_world_def)
  from frame_loop_to_fault [OF assms(2) assms(3) this assms(5)] assms(1)
  show ?thesis
    by (simp add: try_capture_def Let_def emit_def init_world_def)
qed

lemma try_capture_stops_with:
  assumes "VideoCapture src = Inr c" and "is_opened c"
    and "script c = map Got fs @ Got g # rest"
    and "engine_run model m (map (\<lambda>f. build_request cf f (Some b) tr) fs) = (ds, None, m1)"
    and "model m1 (build_request cf g (Some b) tr) = (Inl e, m2)"
  shows "stops_with (try_capture msg cf model b tr VideoCapture src (init_world m)) ds
           (map (\<lambda>f. build_request cf f (Some b) tr) (fs @ [g])) (msg @ e) rest"
proof -
  have l: "length ds = length (map (\<lambda>f. build_request cf f (Some b) tr) fs)"
    using assms(4) by (rule engine_run_length)
  show ?thesis
    unfolding try_capture_to_fault
        [where VideoCapture = VideoCapture and src = src and model = model, OF assms]
      stops_with_def
    using l
    by (simp add: emitted_append diagnostics_append inference_calls_append
        emitted_frame_events diagnostics_frame_events inference_calls_frame_events)
qed

text \<open>
  Claim C5. A stored video of N readable frames, to each of which the model answers from
  the state the frame before it left, gives N pictures on the screen: the pictures the
  model returned, one after each frame's inference and in the order of the stream.
  Nothing is reported as an error; the read after the last frame is the last one
  (N + 1 reads), and the capture is released by it, once.
\<close>

theorem stored_video_exhaustion:
  assumes "widgets_ok u" and "button u ''Detect Video Objects''"
    and "VideoCapture (Path ''videos/tower.mp4'') = Inr c"
    and "is_opened c" and "script c = map Got fs"
    and "engine_run model m (map (request_of cf u) fs) = (ds, None, m1)"
  shows "play_stored_video cf model u VideoCapture (init_world m) =
           (Some (c\<lparr>is_opened := False, script := [], reads := reads c + length fs + 1,
                    releases := releases c + 1\<rparr>),
            \<lparr>events = OpenCall (Path ''videos/tower.mp4'')
                       # frame_events (map (request_of cf u) fs) ds,
             engine_state = m1\<rparr>)
       \<and> length ds = length fs
       \<and> emitted (events (snd (play_stored_video cf model u VideoCapture (init_world m)))) = ds
       \<and> inference_calls (events (snd (play_stored_video cf model u VideoCapture (init_world m))))
           = map (request_of cf u) fs
       \<and> diagnostics (events (snd (play_stored_video cf model u VideoCapture (init_world m)))) = []"
proof -
  let ?b = "fst (display_tracker_options u)"
  let ?tr = "snd (display_tracker_options u)"
  have r: "request_of cf u = (\<lambda>f. build_request cf f (Some ?b) ?tr)"
    by (rule ext) (simp add: request_of_def)
  have run: "play_stored_video cf model u VideoCapture (init_world m) =
           (Some (c\<lparr>is_opened := False, script := [], reads := reads c + length fs + 1,
                    releases := releases c + 1\<rparr>),
            \<lparr>events = OpenCall (Path ''videos/tower.mp4'')
                       # frame_events (map (request_of cf u) fs) ds,
             engine_state = m1\<rparr>)"
    using try_capture_to_end
        [where VideoCapture = VideoCapture and src = "Path ''videos/tower.mp4''"
           and msg = "''Error loading video: ''",
         OF assms(3) assms(4) assms(5) assms(6) [unfolded r]]
      assms(2) chosen_video [OF assms(1)]
    by (simp add: play_stored_video_def Let_def case_prod_beta r)
  have l: "length ds = length (map (request_of cf u) fs)"
    using assms(6) by (rule engine_run_length)
  show ?thesis
    unfolding run using l
    by (simp add: emitted_frame_events diagnostics_frame_events inference_calls_frame_events)
qed

text \<open>
  The ten-frame video, tracker off, confidence 0.4, with the marking model: the ten
  pictures shown are the ten marked pictures, numbers 101 to 110 in that order, after
  eleven reads and one release.
\<close>

theorem stored_video_exhaustion_witness:
  "play_stored_video (2 / 5) (marking_engine 10) (operator False)
      (always_opens (stored_video ten_frames)) (init_world 0)
     = (Some \<lparr>is_opened = False, script = [], reads = 11, releases = 1\<rparr>,
        \<lparr>events = OpenCall (Path ''videos/tower.mp4'')
                   # frame_events (map (request_of (2 / 5) (operator False)) ten_frames)
                       (map (\<lambda>k. \<lparr>width = 720, height = 405, ident = k\<rparr>)
                          [101, 102, 103, 104, 105, 106, 107, 108, 109, 110]),
         engine_state = 10\<rparr>)
   \<and> emitted (events (snd
        (play_stored_video (2 / 5) (marking_engine 10) (operator False)
           (always_opens (stored_video ten_frames)) (init_world 0))))
     = map (\<lambda>k. \<lparr>width = 720, height = 405, ident = k\<rparr>)
         [101, 102, 103, 104, 105, 106, 107, 108, 109, 110]
   \<and> diagnostics (events (snd
        (play_stored_video (2 / 5) (marking_engine 10) (operator False)
           (always_opens (stored_video ten_frames)) (init_world 0)))) = []"
proof -
  let ?ds = "map (\<lambda>k. \<lparr>width = 720, height = 405, ident = k\<rparr>)
               [101, 102, 103, 104, 105, 106, 107, 108, 109, 110 :: nat]"
  have h1: "widgets_ok (operator False)" by (rule operator_ok)
  have h2: "button (operator False) ''Detect Video Objects''" by (simp add: operator_def)
  have h3: "always_opens (stored_video ten_frames) (Path ''videos/tower.mp4'')
              = Inr (stored_video ten_frames)" by (simp add: always_opens_def)
  have h4: "is_opened (stored_video ten_frames)" by (simp add: stored_video_def)
  have h5: "script (stored_video ten_frames) = map Got ten_frames" by (simp add: stored_video_def)
  have h6: "engine_run (marking_engine 10) 0 (map (request_of (2 / 5) (operator False)) ten_frames)
              = (?ds, None, 10)"
    by code_simp
  have c: "stored_video ten_frames
             \<lparr>is_opened := False, script := [],
              reads := reads (stored_video ten_frames) + length ten_frames + 1,
              releases := releases (stored_video ten_frames) + 1\<rparr>
           = \<lparr>is_opened = False, script = [], reads = 11, releases = 1\<rparr>"
    by (simp add: stored_video_def ten_frames_def)
  from stored_video_exhaustion
         [where VideoCapture = "always_opens (stored_video ten_frames)",
          OF h1 h2 h3 h4 h5 h6]
  show ?thesis unfolding c by blast
qed

section \<open>A fault in the middle of a stream, and a source that does not open\<close>

text \<open>
  Claim C1, as it is written, at the ten-frame video with the tracker on and a model that
  raises on frame 5: the pictures shown are those of frames 1 to 4, not those of frames
  1 to 4 and 6 to 10.
\<close>

theorem inference_fault_counterexample:
  "map ident (emitted (events (snd
      (play_stored_video (2 / 5) (faulty_engine 5) (operator True)
         (always_opens (stored_video ten_frames)) (init_world 0))))) = [1, 2, 3, 4]
   \<and> map ident (emitted (events (snd
      (play_stored_video (2 / 5) (faulty_engine 5) (operator True)
         (always_opens (stored_video ten_frames)) (init_world 0)))))
       \<noteq> [1, 2, 3, 4, 6, 7, 8, 9, 10]"
  by code_simp

text \<open>
  Claim C1, amended. In each of the four play functions the \<open>try\<close> encloses the whole
  loop. When the model answers to the frames \<open>fs\<close>, each from the state the frame before it
  left, and raises on the frame \<open>g\<close> that follows them, the run of any source, stored
  video, webcam, RTSP or YouTube, stops there without the exception leaving it: the
  pictures shown are the pictures the model returned for \<open>fs\<close>, in the order of the
  stream; the requests made are those for \<open>fs\<close> and for \<open>g\<close>, so \<open>g\<close> is not shown; the one
  diagnostic is the message of the function followed by that of the exception; and what
  the capture had to give after \<open>g\<close> is still unread.
\<close>

theorem inference_fault_stops_run:
  assumes "is_opened c" and "script c = map Got fs @ Got g # rest"
    and "engine_run model m (map (request_of cf u) fs) = (ds, None, m1)"
    and "model m1 (request_of cf u g) = (Inl e, m2)"
  shows "(button u ''Detect Video Objects''
          \<and> VideoCapture (Path (str_get VIDEOS_DICT
                (selectbox u ''Choose a video...'' (map fst VIDEOS_DICT)))) = Inr c
          \<longrightarrow> stops_with (play_stored_video cf model u VideoCapture (init_world m)) ds
                (map (request_of cf u) (fs @ [g])) (''Error loading video: '' @ e) rest)
       \<and> (button u ''Detect Objects'' \<and> VideoCapture (DeviceIndex WEBCAM_PATH) = Inr c
          \<longrightarrow> stops_with (play_webcam cf model u VideoCapture (init_world m)) ds
                (map (request_of cf u) (fs @ [g])) (''Error loading video: '' @ e) rest)
       \<and> (button u ''Detect Objects''
          \<and> VideoCapture (Path (text_input u ''RTSP stream URL'')) = Inr c
          \<longrightarrow> stops_with (play_rtsp_stream cf model u VideoCapture (init_world m)) ds
                (map (request_of cf u) (fs @ [g])) (''Error loading RTSP stream: '' @ e) rest)
       \<and> (button u ''Detect Objects''
          \<and> YouTube (text_input u ''YouTube Video URL'') = Inr streams
          \<and> first (streams_filter streams ''mp4'' 720) = Some stream
          \<and> VideoCapture (Path (url stream)) = Inr c
          \<longrightarrow> stops_with
                (play_youtube_video cf model u YouTube streams_filter VideoCapture (init_world m))
                ds (map (request_of cf u) (fs @ [g])) (''Error loading video: '' @ e) rest)"
proof -
  let ?b = "fst (display_tracker_options u)"
  let ?tr = "snd (display_tracker_options u)"
  have r: "request_of cf u = (\<lambda>f. build_request cf f (Some ?b) ?tr)"
    by (rule ext) (simp add: request_of_def)
  have stop: "stops_with (try_capture msg cf model ?b ?tr VideoCapture src (init_world m)) ds
                (map (request_of cf u) (fs @ [g])) (msg @ e) rest"
    if "VideoCapture src = Inr c" for msg src
    using try_capture_stops_with
        [where VideoCapture = VideoCapture and src = src and model = model and msg = msg,
         OF that assms(1) assms(2) assms(3) [unfolded r] assms(4) [unfolded r]]
    by (simp add: r)
  show ?thesis
  proof (intro conjI impI)
    assume a: "button u ''Detect Video Objects''
          \<and> VideoCapture (Path (str_get VIDEOS_DICT
                (selectbox u ''Choose a video...'' (map fst VIDEOS_DICT)))) = Inr c"
    then have eq: "play_stored_video cf model u VideoCapture (init_world m) =
        try_capture ''Error loading video: '' cf model ?b ?tr VideoCapture
          (Path (str_get VIDEOS_DICT (selectbox u ''Choose a video...'' (map fst VIDEOS_DICT))))
          (init_world m)"
      by (simp add: play_stored_video_def Let_def case_prod_beta)
    from a have v: "VideoCapture (Path (str_get VIDEOS_DICT
                (selectbox u ''Choose a video...'' (map fst VIDEOS_DICT)))) = Inr c" ..
    show "stops_with (play_stored_video cf model u VideoCapture (init_world m)) ds
            (map (request_of cf u) (fs @ [g])) (''Error loading video: '' @ e) rest"
      unfolding eq by (rule stop [OF v])
  next
    assume a: "button u ''Detect Objects'' \<and> VideoCapture (DeviceIndex WEBCAM_PATH) = Inr c"
    then have eq: "play_webcam cf model u VideoCapture (init_world m) =
        try_capture ''Error loading video: '' cf model ?b ?tr VideoCapture
          (DeviceIndex WEBCAM_PATH) (init_world m)"
      by (simp add: play_webcam_def Let_def case_prod_beta)
    from a have v: "VideoCapture (DeviceIndex WEBCAM_PATH) = Inr c" ..
    show "stops_with (play_webcam cf model u VideoCapture (init_world m)) ds
            (map (request_of cf u) (fs @ [g])) (''Error loading video: '' @ e) rest"
      unfolding eq by (rule stop [OF v])
  next
    assume a: "button u ''Detect Objects''
          \<and> VideoCapture (Path (text_input u ''RTSP stream URL'')) = Inr c"
    then have eq: "play_rtsp_stream cf model u VideoCapture (init_world m) =
        try_capture ''Error loading RTSP stream: '' cf model ?b ?tr VideoCapture
          (Path (text_input u ''RTSP stream URL'')) (init_world m)"
      by (simp add: play_rtsp_stream_def Let_def case_prod_beta)
    from a have v: "VideoCapture (Path (text_input u ''RTSP stream URL'')) = Inr c" ..
    show "stops_with (play_rtsp_stream cf model u VideoCapture (init_world m)) ds
            (map (request_of cf u) (fs @ [g])) (''Error loading RTSP stream: '' @ e) rest"
      unfolding eq by (rule stop [OF v])
  next
    assume a: "button u ''Detect Objects''
          \<and> YouTube (text_input u ''YouTube Video URL'') = Inr streams
          \<and> first (streams_filter streams ''mp4'' 720) = Some stream
          \<and> VideoCapture (Path (url stream)) = Inr c"
    then have eq: "play_youtube_video cf model u YouTube streams_filter VideoCapture (init_world m) =
        try_capture ''Error loading video: '' cf model ?b ?tr VideoCapture
          (Path (url stream)) (init_world m)"
      by (simp add: play_youtube_video_def Let_def case_prod_beta)
    from a have v: "VideoCapture (Path (url stream)) = Inr c" by simp
    show "stops_with
            (play_youtube_video cf model u YouTube streams_filter VideoCapture (init_world m))
            ds (map (request_of cf u) (fs @ [g])) (''Error loading video: '' @ e) rest"
      unfolding eq by (rule stop [OF v])
  qed
qed

text \<open>
  The ten-frame video with the tracker on and the marking model that raises on its fifth
  call, through each of the four functions: the marked pictures 101 to 104 are shown,
  five requests are made, one diagnostic is written and frames 6 to 10 stay unread.
\<close>

theorem inference_fault_stops_run_witness:
  "stops_with
     (play_stored_video (2 / 5) (marking_engine 4) (operator True)
        (always_opens (stored_video ten_frames)) (init_world 0))
     (map (\<lambda>k. \<lparr>width = 720, height = 405, ident = k\<rparr>) [101, 102, 103, 104])
     (map (request_of (2 / 5) (operator True)) (map camera_frame [1, 2, 3, 4, 5]))
     ''Error loading video: engine fault''
     (map Got (map camera_frame [6, 7, 8, 9, 10]))
   \<and> stops_with
     (play_webcam (2 / 5) (marking_engine 4) (operator True)
        (always_opens (stored_video ten_frames)) (init_world 0))
     (map (\<lambda>k. \<lparr>width = 720, height = 405, ident = k\<rparr>) [101, 102, 103, 104])
     (map (request_of (2 / 5) (operator True)) (map camera_frame [1, 2, 3, 4, 5]))
     ''Error loading video: engine fault''
     (map Got (map camera_frame [6, 7, 8, 9, 10]))
   \<and> stops_with
     (play_rtsp_stream (2 / 5) (marking_engine 4) (operator True)
        (always_opens (stored_video ten_frames)) (init_world 0))
     (map (\<lambda>k. \<lparr>width = 720, height = 405, ident = k\<rparr>) [101, 102, 103, 104])
     (map (request_of (2 / 5) (operator True)) (map camera_frame [1, 2, 3, 4, 5]))
     ''Error loading RTSP stream: engine fault''
     (map Got (map camera_frame [6, 7, 8, 9, 10]))
   \<and> stops_with
     (play_youtube_video (2 / 5) (marking_engine 4) (operator True)
        (resolves_to offered) keeps_all (always_opens (stored_video ten_frames)) (init_world 0))
     (map (\<lambda>k. \<lparr>width = 720, height = 405, ident = k\<rparr>) [101, 102, 103, 104])
     (map (request_of (2 / 5) (operator True)) (map camera_frame [1, 2, 3, 4, 5]))
     ''Error loading video: engine fault''
     (map Got (map camera_frame [6, 7, 8, 9, 10]))"
proof -
  let ?fs = "map camera_frame [1, 2, 3, 4]"
  let ?rest = "map Got (map camera_frame [6, 7, 8, 9, 10])"
  let ?c = "stored_video ten_frames"
  let ?u = "operator True"
  let ?ds = "map (\<lambda>k. \<lparr>width = 720, height = 405, ident = k\<rparr>) [101, 102, 103, 104 :: nat]"
  have h1: "is_opened ?c" by (simp add: stored_video_def)
  have h2: "script ?c = map Got ?fs @ Got (camera_frame 5) # ?rest"
    by (simp add: stored_video_def ten_frames_def)
  have h3: "engine_run (marking_engine 4) 0 (map (request_of (2 / 5) ?u) ?fs) = (?ds, None, 4)"
    by code_simp
  have h4: "marking_engine 4 4 (request_of (2 / 5) ?u (camera_frame 5))
              = (Inl ''engine fault'', 5)"
    by (simp add: marking_engine_def)
  have b: "button ?u ''Detect Video Objects''" "button ?u ''Detect Objects''"
    by (simp_all add: operator_def)
  have v: "always_opens ?c src = Inr ?c" for src
    by (simp add: always_opens_def)
  have y: "resolves_to offered (text_input ?u ''YouTube Video URL'') = Inr offered"
    by (simp add: resolves_to_def)
  have f: "first (keeps_all offered ''mp4'' 720) = Some (hd offered)"
    by (simp add: keeps_all_def offered_def first_def)
  have fs5: "?fs @ [camera_frame 5] = map camera_frame [1, 2, 3, 4, 5]" by simp
  from inference_fault_stops_run
         [where VideoCapture = "always_opens ?c" and YouTube = "resolves_to offered"
            and streams_filter = keeps_all and streams = offered and stream = "hd offered"
            and model = "marking_engine 4",
          OF h1 h2 h3 h4]
  show ?thesis
    unfolding fs5 using b v y f by simp
qed

text \<open>
  Claim C2 at the ten-frame video with a model that raises on frame 5: the exception
  leaves the loop through the \<open>except\<close>, which does not call \<open>release()\<close>; the capture is
  left opened and released zero times.
\<close>

theorem fault_leaves_capture_unreleased:
  "map_option releases (fst
      (play_stored_video (2 / 5) (faulty_engine 5) (operator True)
         (always_opens (stored_video ten_frames)) (init_world 0))) = Some 0
   \<and> map_option is_opened (fst
      (play_stored_video (2 / 5) (faulty_engine 5) (operator True)
         (always_opens (stored_video ten_frames)) (init_world 0))) = Some True"
  by code_simp

text \<open>
  Claim C4 at an RTSP address for which \<open>cv2.VideoCapture\<close> returns a capture that is not
  opened: the condition of the \<open>while\<close> is false at once, nothing raises, and the run
  ends with no diagnostic.
\<close>

theorem unopened_rtsp_is_silent:
  "play_rtsp_stream (2 / 5) healthy_engine (operator True)
      (always_opens not_connected) (init_world 0)
     = (Some not_connected,
        \<lparr>events = [OpenCall (Path ''rtsp://10.0.0.7/live'')], engine_state = 0\<rparr>)
   \<and> diagnostics (events (snd
        (play_rtsp_stream (2 / 5) healthy_engine (operator True)
           (always_opens not_connected) (init_world 0)))) = []"
  by code_simp

section \<open>What every request looks like\<close>

lemma loop_event_requests:
  "\<forall>e\<in>set new. loop_event cf trk tr e \<Longrightarrow> r \<in> set (inference_calls new)
   \<Longrightarrow> \<exists>f. r = build_request cf f trk tr"
proof (induction new)
  case Nil
  then show ?case by simp
next
  case (Cons e new)
  then show ?case by (cases e) auto
qed

lemma loop_event_open_calls: "\<forall>e\<in>set new. loop_event cf trk tr e \<Longrightarrow> open_calls new = []"
proof (induction new)
  case Nil
  then show ?case by simp
next
  case (Cons e new)
  then show ?case by (cases e) auto
qed

lemma try_capture_events:
  "\<exists>new diag.
     events (snd (try_capture msg cf model b tr VideoCapture src w))
       = events w @ OpenCall src # new @ diag
   \<and> (\<forall>e\<in>set new. loop_event cf (Some b) tr e)
   \<and> (diag = [] \<or> (\<exists>e. diag = [SidebarError (msg @ e)]))"
proof (cases "VideoCapture src")
  case (Inl e)
  then show ?thesis
    by (intro exI [of _ "[]"] exI [of _ "[SidebarError (msg @ e)]"])
       (simp add: try_capture_def emit_def Let_def)
next
  case (Inr c)
  let ?w0 = "emit (OpenCall src) w"
  obtain r c1 w1 where loop: "frame_loop cf model (Some b) tr c ?w0 = (r, c1, w1)"
    by (cases "frame_loop cf model (Some b) tr c ?w0")
  from frame_loop_events [OF refl loop] obtain new where
    new: "events w1 = events ?w0 @ new" "\<forall>e\<in>set new. loop_event cf (Some b) tr e"
    by blast
  show ?thesis
  proof (cases r)
    case None
    with Inr loop new show ?thesis
      by (intro exI [of _ new] exI [of _ "[]"]) (simp add: try_capture_def emit_def Let_def)
  next
    case (Some e)
    with Inr loop new show ?thesis
      by (intro exI [of _ new] exI [of _ "[SidebarError (msg @ e)]"])
         (simp add: try_capture_def emit_def Let_def)
  qed
qed

lemma try_capture_requests:
  assumes "r \<in> set (inference_calls
             (events (snd (try_capture msg cf model b tr VideoCapture src (init_world m)))))"
  shows "\<exists>f. r = build_request cf f (Some b) tr"
proof -
  from try_capture_events [of msg cf model b tr VideoCapture src "init_world m"]
  obtain new diag where
    ev: "events (snd (try_capture msg cf model b tr VideoCapture src (init_world m)))
           = events (init_world m) @ OpenCall src # new @ diag"
    and new: "\<forall>e\<in>set new. loop_event cf (Some b) tr e"
    and diag: "diag = [] \<or> (\<exists>e. diag = [SidebarError (msg @ e)])"
    by blast
  from diag have "inference_calls diag = []" by auto
  with assms ev have "r \<in> set (inference_calls new)"
    by (simp add: init_world_def inference_calls_append)
  with new show ?thesis by (rule loop_event_requests)
qed

lemma no_request_in_error:
  "inference_calls (events (emit (SidebarError x) (init_world m))) = []"
  by (simp add: init_world_def emit_def)

lemma play_stored_video_requests:
  assumes "r \<in> set (inference_calls
             (events (snd (play_stored_video cf model u VideoCapture (init_world m)))))"
  shows "\<exists>f. r = build_request cf f (Some (fst (display_tracker_options u)))
                  (snd (display_tracker_options u))"
proof (cases "button u ''Detect Video Objects''")
  case True
  with assms show ?thesis
    by (auto simp: play_stored_video_def Let_def case_prod_beta dest: try_capture_requests)
next
  case False
  with assms show ?thesis
    by (simp add: play_stored_video_def Let_def case_prod_beta init_world_def)
qed

lemma play_webcam_requests:
  assumes "r \<in> set (inference_calls
             (events (snd (play_webcam cf model u VideoCapture (init_world m)))))"
  shows "\<exists>f. r = build_request cf f (Some (fst (display_tracker_options u)))
                  (snd (display_tracker_options u))"
proof (cases "button u ''Detect Objects''")
  case True
  with assms show ?thesis
    by (auto simp: play_webcam_def Let_def case_prod_beta dest: try_capture_requests)
next
  case False
  with assms show ?thesis
    by (simp add: play_webcam_def Let_def case_prod_beta init_world_def)
qed

lemma play_rtsp_stream_requests:
  assumes "r \<in> set (inference_calls
             (events (snd (play_rtsp_stream cf model u VideoCapture (init_world m)))))"
  shows "\<exists>f. r = build_request cf f (Some (fst (display_tracker_options u)))
                  (snd (display_tracker_options u))"
proof (cases "button u ''Detect Objects''")
  case True
  with assms show ?thesis
    by (auto simp: play_rtsp_stream_def Let_def case_prod_beta dest: try_capture_requests)
next
  case False
  with assms show ?thesis
    by (simp add: play_rtsp_stream_def Let_def case_prod_beta init_world_def)
qed

lemma play_youtube_video_requests:
  assumes "r \<in> set (inference_calls
             (events (snd (play_youtube_video cf model u YouTube streams_filter VideoCapture (init_world m)))))"
  shows "\<exists>f. r = build_request cf f (Some (fst (display_tracker_options u)))
                  (snd (display_tracker_options u))"
proof (cases "button u ''Detect Objects''")
  case True
  with assms show ?thesis
    by (auto simp: play_youtube_video_def Let_def case_prod_beta no_request_in_error
             split: sum.splits option.splits dest: try_capture_requests)
next
  case False
  with assms show ?thesis
    by (simp add: play_youtube_video_def Let_def case_prod_beta init_world_def)
qed

lemma build_request_size:
  "width (request_frame (build_request cf f trk tr)) = 720
   \<and> height (request_frame (build_request cf f trk tr)) = 405"
  by (simp add: build_request_def cv2_resize_def Let_def py_int_def)

lemma build_request_follows:
  "request_follows u cf
     (build_request cf f (Some (fst (display_tracker_options u)))
        (snd (display_tracker_options u)))"
  by (simp add: build_request_def display_tracker_options_def truthy_def Let_def)

lemma build_request_conf: "request_conf (build_request cf f trk tr) = cf"
  by (simp add: build_request_def Let_def)

text \<open>
  Claim C3. Whatever the source (stored video, webcam, RTSP, YouTube), whatever its frames
  measure, whatever the capture, the model and the user do, every frame handed to the model
  is 720 wide and \<open>round(720 * 9/16)\<close> = 405 high.
\<close>

theorem uniform_framing:
  "(\<forall>r\<in>set (inference_calls
       (events (snd (play_stored_video cf model u VideoCapture (init_world m))))).
      width (request_frame r) = 720 \<and> height (request_frame r) = round (720 * (9 / 16) :: rat))
   \<and> (\<forall>r\<in>set (inference_calls
       (events (snd (play_webcam cf model u VideoCapture (init_world m))))).
      width (request_frame r) = 720 \<and> height (request_frame r) = round (720 * (9 / 16) :: rat))
   \<and> (\<forall>r\<in>set (inference_calls
       (events (snd (play_rtsp_stream cf model u VideoCapture (init_world m))))).
      width (request_frame r) = 720 \<and> height (request_frame r) = round (720 * (9 / 16) :: rat))
   \<and> (\<forall>r\<in>set (inference_calls
       (events (snd (play_youtube_video cf model u YouTube streams_filter VideoCapture (init_world m))))).
      width (request_frame r) = 720 \<and> height (request_frame r) = round (720 * (9 / 16) :: rat))"
  unfolding round_target
  using build_request_size
  by (metis play_stored_video_requests play_webcam_requests play_rtsp_stream_requests
      play_youtube_video_requests)

text \<open>
  The ten requests of the ten-frame video, whose frames are 1920 by 1080: all 720 by 405.
\<close>

theorem uniform_framing_witness:
  "map (\<lambda>r. (width (request_frame r), height (request_frame r)))
     (inference_calls (events (snd
        (play_stored_video (2 / 5) healthy_engine (operator False)
           (always_opens (stored_video ten_frames)) (init_world 0)))))
     = replicate 10 (720, 405)
   \<and> width (request_frame (hd (inference_calls (events (snd
        (play_stored_video (2 / 5) healthy_engine (operator False)
           (always_opens (stored_video ten_frames)) (init_world 0))))))) = 720
   \<and> height (request_frame (hd (inference_calls (events (snd
        (play_stored_video (2 / 5) healthy_engine (operator False)
           (always_opens (stored_video ten_frames)) (init_world 0))))))) = 405"
proof -
  let ?calls = "inference_calls (events (snd
        (play_stored_video (2 / 5) healthy_engine (operator False)
           (always_opens (stored_video ten_frames)) (init_world 0))))"
  have sizes: "map (\<lambda>r. (width (request_frame r), height (request_frame r))) ?calls
      = replicate 10 (720, 405)"
    by code_simp
  then have "?calls \<noteq> []" by auto
  then have mem: "hd ?calls \<in> set ?calls" by simp
  from uniform_framing [of "2 / 5" healthy_engine "operator False"
        "always_opens (stored_video ten_frames)" 0] mem
  have "width (request_frame (hd ?calls)) = 720 \<and> height (request_frame (hd ?calls)) = 405"
    unfolding round_target by blast
  with sizes show ?thesis by simp
qed

lemma display_request:
  "inference_calls (events (snd (display_detected_frames cf model img trk tr (init_world m))))
     = [build_request cf img trk tr]"
  by (simp add: display_detected_frames_def emit_def init_world_def Let_def
      split: prod.splits sum.splits)

text \<open>
  Claim C6. One frame gives one request: \<open>track\<close> with \<open>persist=True\<close> and the tracker
  passed in when \<open>is_display_tracking\<close> is true, \<open>predict\<close> otherwise, with the confidence
  passed in. In the four play functions every request follows the configuration of the
  sidebar: track mode with the chosen tracker exactly when the tracker is wanted, and the
  confidence of the run unchanged.
\<close>

theorem request_follows_configuration:
  "inference_calls (events (snd (display_detected_frames cf model img trk tr (init_world m))))
     = [if truthy trk then Track (img\<lparr>width := 720, height := 405\<rparr>) cf True tr
        else Predict (img\<lparr>width := 720, height := 405\<rparr>) cf]
   \<and> (\<forall>r\<in>set (inference_calls
        (events (snd (play_stored_video cf model u VideoCapture (init_world m))))).
        request_follows u cf r \<and> request_conf r = cf)
   \<and> (\<forall>r\<in>set (inference_calls
        (events (snd (play_webcam cf model u VideoCapture (init_world m))))).
        request_follows u cf r \<and> request_conf r = cf)
   \<and> (\<forall>r\<in>set (inference_calls
        (events (snd (play_rtsp_stream cf model u VideoCapture (init_world m))))).
        request_follows u cf r \<and> request_conf r = cf)
   \<and> (\<forall>r\<in>set (inference_calls
        (events (snd (play_youtube_video cf model u YouTube streams_filter VideoCapture (init_world m))))).
        request_follows u cf r \<and> request_conf r = cf)"
proof (intro conjI ballI)
  show "inference_calls
          (events (snd (display_detected_frames cf model img trk tr (init_world m))))
     = [if truthy trk then Track (img\<lparr>width := 720, height := 405\<rparr>) cf True tr
        else Predict (img\<lparr>width := 720, height := 405\<rparr>) cf]"
    by (simp add: display_request build_request_def cv2_resize_def py_int_def Let_def)
next
  fix r
  assume "r \<in> set (inference_calls
        (events (snd (play_stored_video cf model u VideoCapture (init_world m)))))"
  from play_stored_video_requests [OF this] obtain f where
    r: "r = build_request cf f (Some (fst (display_tracker_options u)))
              (snd (display_tracker_options u))" ..
  show "request_follows u cf r" unfolding r by (rule build_request_follows)
  show "request_conf r = cf" unfolding r by (rule build_request_conf)
next
  fix r
  assume "r \<in> set (inference_calls
        (events (snd (play_webcam cf model u VideoCapture (init_world m)))))"
  from play_webcam_requests [OF this] obtain f where
    r: "r = build_request cf f (Some (fst (display_tracker_options u)))
              (snd (display_tracker_options u))" ..
  show "request_follows u cf r" unfolding r by (rule build_request_follows)
  show "request_conf r = cf" unfolding r by (rule build_request_conf)
next
  fix r
  assume "r \<in> set (inference_calls
        (events (snd (play_rtsp_stream cf model u VideoCapture (init_world m)))))"
  from play_rtsp_stream_requests [OF this] obtain f where
    r: "r = build_request cf f (Some (fst (display_tracker_options u)))
              (snd (display_tracker_options u))" ..
  show "request_follows u cf r" unfolding r by (rule build_request_follows)
  show "request_conf r = cf" unfolding r by (rule build_request_conf)
next
  fix r
  assume "r \<in> set (inference_calls
        (events (snd (play_youtube_video cf model u YouTube streams_filter VideoCapture (init_world m)))))"
  from play_youtube_video_requests [OF this] obtain f where
    r: "r = build_request cf f (Some (fst (display_tracker_options u)))
              (snd (display_tracker_options u))" ..
  show "request_follows u cf r" unfolding r by (rule build_request_follows)
  show "request_conf r = cf" unfolding r by (rule build_request_conf)
qed

text \<open>
  With the tracker wanted, the five requests of the faulting run are \<open>track\<close> calls with
  bytetrack; without it, the requests are \<open>predict\<close> calls.
\<close>

theorem request_follows_configuration_witness:
  "inference_calls (events (snd
      (play_stored_video (2 / 5) (faulty_engine 5) (operator True)
         (always_opens (stored_video ten_frames)) (init_world 0))))
     = map (\<lambda>k. Track \<lparr>width = 720, height = 405, ident = k\<rparr> (2 / 5) True
                    (Some ''bytetrack.yaml'')) [1, 2, 3, 4, 5]
   \<and> request_follows (operator True) (2 / 5)
        (Track \<lparr>width = 720, height = 405, ident = 1\<rparr> (2 / 5) True (Some ''bytetrack.yaml''))
   \<and> inference_calls (events (snd
        (play_stored_video (2 / 5) healthy_engine (operator False)
           (always_opens (stored_video [camera_frame 1, camera_frame 2])) (init_world 0))))
     = [Predict \<lparr>width = 720, height = 405, ident = 1\<rparr> (2 / 5),
        Predict \<lparr>width = 720, height = 405, ident = 2\<rparr> (2 / 5)]
   \<and> request_follows (operator False) (2 / 5)
        (Predict \<lparr>width = 720, height = 405, ident = 1\<rparr> (2 / 5))"
proof -
  let ?tracked = "inference_calls (events (snd
      (play_stored_video (2 / 5) (faulty_engine 5) (operator True)
         (always_opens (stored_video ten_frames)) (init_world 0))))"
  let ?plain = "inference_calls (events (snd
        (play_stored_video (2 / 5) healthy_engine (operator False)
           (always_opens (stored_video [camera_frame 1, camera_frame 2])) (init_world 0))))"
  have t: "?tracked = map (\<lambda>k. Track \<lparr>width = 720, height = 405, ident = k\<rparr> (2 / 5) True
                    (Some ''bytetrack.yaml'')) [1, 2, 3, 4, 5]"
    by code_simp
  have p: "?plain = [Predict \<lparr>width = 720, height = 405, ident = 1\<rparr> (2 / 5),
        Predict \<lparr>width = 720, height = 405, ident = 2\<rparr> (2 / 5)]"
    by code_simp
  have "Track \<lparr>width = 720, height = 405, ident = 1\<rparr> (2 / 5) True (Some ''bytetrack.yaml'')
          \<in> set ?tracked"
    unfolding t by simp
  with request_follows_configuration [of "2 / 5" "faulty_engine 5" _ _ _ 0 "operator True"
        "always_opens (stored_video ten_frames)"]
  have ft: "request_follows (operator True) (2 / 5)
        (Track \<lparr>width = 720, height = 405, ident = 1\<rparr> (2 / 5) True (Some ''bytetrack.yaml''))"
    by blast
  have "Predict \<lparr>width = 720, height = 405, ident = 1\<rparr> (2 / 5) \<in> set ?plain"
    unfolding p by simp
  with request_follows_configuration [of "2 / 5" healthy_engine _ _ _ 0 "operator False"
        "always_opens (stored_video [camera_frame 1, camera_frame 2])"]
  have fp: "request_follows (operator False) (2 / 5)
        (Predict \<lparr>width = 720, height = 405, ident = 1\<rparr> (2 / 5))"
    by blast
  from t p ft fp show ?thesis by (intro conjI)
qed

lemma try_capture_opens_once:
  "\<exists>rest. events (snd (try_capture msg cf model b tr VideoCapture src (init_world m)))
            = OpenCall src # rest \<and> open_calls rest = []"
proof -
  from try_capture_events [of msg cf model b tr VideoCapture src "init_world m"]
  obtain new diag where
    ev: "events (snd (try_capture msg cf model b tr VideoCapture src (init_world m)))
           = events (init_world m) @ OpenCall src # new @ diag"
    and new: "\<forall>e\<in>set new. loop_event cf (Some b) tr e"
    and diag: "diag = [] \<or> (\<exists>e. diag = [SidebarError (msg @ e)])"
    by blast
  from diag have "open_calls diag = []" by auto
  with loop_event_open_calls [OF new] have "open_calls (new @ diag) = []"
    by (simp add: open_calls_append)
  with ev show ?thesis by (simp add: init_world_def)
qed

lemma youtube_opens_what_the_query_gives:
  assumes "button u ''Detect Objects''"
    and "YouTube (text_input u ''YouTube Video URL'') = Inr streams"
  shows "(first (streams_filter streams ''mp4'' 720) = Some stream \<longrightarrow>
            (\<exists>rest. events (snd (play_youtube_video cf model u YouTube streams_filter VideoCapture
                                    (init_world m)))
                       = OpenCall (Path (url stream)) # rest
                   \<and> open_calls rest = []))
       \<and> (first (streams_filter streams ''mp4'' 720) = None \<longrightarrow>
            play_youtube_video cf model u YouTube streams_filter VideoCapture (init_world m)
              = (None, \<lparr>events = [SidebarError (''Error loading video: '' @ none_has_no_url)],
                        engine_state = m\<rparr>))"
proof (intro conjI impI)
  assume "first (streams_filter streams ''mp4'' 720) = Some stream"
  with assms have "play_youtube_video cf model u YouTube streams_filter VideoCapture (init_world m)
      = try_capture ''Error loading video: '' cf model (fst (display_tracker_options u))
          (snd (display_tracker_options u)) VideoCapture (Path (url stream)) (init_world m)"
    by (simp add: play_youtube_video_def Let_def case_prod_beta)
  then show "\<exists>rest. events (snd (play_youtube_video cf model u YouTube streams_filter VideoCapture
                                    (init_world m)))
                       = OpenCall (Path (url stream)) # rest
                   \<and> open_calls rest = []"
    using try_capture_opens_once by simp
next
  assume "first (streams_filter streams ''mp4'' 720) = None"
  with assms show "play_youtube_video cf model u YouTube streams_filter VideoCapture (init_world m)
              = (None, \<lparr>events = [SidebarError (''Error loading video: '' @ none_has_no_url)],
                        engine_state = m\<rparr>)"
    by (simp add: play_youtube_video_def Let_def case_prod_beta emit_def init_world_def)
qed

text \<open>
  Claim C7 with the query of the library. The code passes \<open>res=720\<close>, an integer, so the
  query filters on the file extension alone. At a video that offers, in this order, a
  webm stream at 720p, an mp4 stream at 360p and two mp4 streams at 720p, the run opens
  the 360p stream. At a video that offers only the first two, where no mp4 stream at
  720p exists, the run does not fail: it opens the 360p stream and reports nothing.
\<close>

theorem youtube_opens_first_mp4:
  "open_calls (events (snd
      (play_youtube_video (2 / 5) healthy_engine (operator False) (resolves_to offered)
         pytubefix_filter (always_opens (stored_video ten_frames)) (init_world 0))))
     = [Path ''https://cdn/b.mp4'']
   \<and> open_calls (events (snd
      (play_youtube_video (2 / 5) healthy_engine (operator False) (resolves_to (take 2 offered))
         pytubefix_filter (always_opens (stored_video ten_frames)) (init_world 0))))
     = [Path ''https://cdn/b.mp4'']
   \<and> diagnostics (events (snd
      (play_youtube_video (2 / 5) healthy_engine (operator False) (resolves_to (take 2 offered))
         pytubefix_filter (always_opens (stored_video ten_frames)) (init_world 0))))
     = []"
  by code_simp

text \<open>
  Claim C8. With radio groups that return one of their options, \<open>display_tracker_options\<close>
  returns a pair: the flag is true exactly when Yes was chosen; with the flag true the
  tracker is one of the two identifiers, with the flag false it is \<open>None\<close>.
\<close>

theorem tracker_options_pair:
  assumes "widgets_ok u"
  shows "(case display_tracker_options u of
            (is_display_tracker, tracker) \<Rightarrow>
              (is_display_tracker \<longleftrightarrow> radio u ''Display Tracker'' [''Yes'', ''No''] = ''Yes'')
              \<and> (if is_display_tracker
                  then tracker = Some ''bytetrack.yaml'' \<or> tracker = Some ''botsort.yaml''
                  else tracker = None))"
proof -
  have "radio u ''Tracker'' [''bytetrack.yaml'', ''botsort.yaml'']
          \<in> set [''bytetrack.yaml'', ''botsort.yaml'']"
    using assms unfolding widgets_ok_def by blast
  then have "radio u ''Tracker'' [''bytetrack.yaml'', ''botsort.yaml''] = ''bytetrack.yaml''
      \<or> radio u ''Tracker'' [''bytetrack.yaml'', ''botsort.yaml''] = ''botsort.yaml''"
    by simp
  then show ?thesis
    by (auto simp: display_tracker_options_def Let_def)
qed

text \<open>
  The user who wants the tracker and the one who does not.
\<close>

theorem tracker_options_pair_witness:
  "fst (display_tracker_options (operator True))
   \<and> snd (display_tracker_options (operator True))
         \<in> {Some ''bytetrack.yaml'', Some ''botsort.yaml''}
   \<and> display_tracker_options (operator False) = (False, None)"
proof -
  have t: "widgets_ok (operator True)" and f: "widgets_ok (operator False)"
    by (rule operator_ok)+
  have rt: "radio (operator True) ''Display Tracker'' [''Yes'', ''No''] = ''Yes''"
    and rf: "radio (operator False) ''Display Tracker'' [''Yes'', ''No''] = ''No''"
    by (simp_all add: operator_def)
  have "fst (display_tracker_options (operator True))
      \<and> snd (display_tracker_options (operator True))
            \<in> {Some ''bytetrack.yaml'', Some ''botsort.yaml''}"
    using tracker_options_pair [OF t] rt
    by (cases "display_tracker_options (operator True)") auto
  moreover have "display_tracker_options (operator False) = (False, None)"
    using tracker_options_pair [OF f] rf
    by (cases "display_tracker_options (operator False)") simp
  ultimately show ?thesis by simp
qed

section \<open>The zip batch\<close>

lemma shown_append: "shown (xs @ ys) = shown xs @ shown ys"
  by (induction xs rule: shown.induct) simp_all

lemma errors_append: "errors (xs @ ys) = errors xs @ errors ys"
  by (induction xs rule: errors.induct) simp_all

lemma predict_calls_append: "predict_calls (xs @ ys) = predict_calls xs @ predict_calls ys"
  by (induction xs rule: predict_calls.induct) simp_all

lemma read_entries_readable: "read_entries (readable files) acc = Inr (acc @ files)"
  by (induction files arbitrary: acc) (simp_all add: readable_def)

lemma detect_images_result:
  "fst (detect_images b dm cf files det evs) = det @ concat (map (detected_of b dm cf) files)
   \<and> shown (snd (detect_images b dm cf files det evs)) = shown evs
   \<and> errors (snd (detect_images b dm cf files det evs))
       = errors evs @ concat (map (error_of b dm cf) files)
   \<and> predict_calls (snd (detect_images b dm cf files det evs))
       = predict_calls evs @ concat (map (submitted_of b cf) files)"
proof (induction files arbitrary: det evs)
  case Nil
  then show ?case by simp
next
  case (Cons entry files)
  obtain file_name file_data where e: "entry = (file_name, file_data)" by (cases entry)
  show ?case
    unfolding e
    by (simp add: Cons.IH detected_of_def error_of_def submitted_of_def process_def
        shown_append errors_append predict_calls_append
        split: sum.splits)
qed

lemma show_cell_shown:
  "shown (show_cell d i j evs)
     = shown evs @ (if i * 3 + j < length d then [cell d (i * 3 + j)] else [])"
  by (simp add: show_cell_def cell_def grid_size_def Let_def case_prod_beta shown_append)

lemma show_cell_errors: "errors (show_cell d i j evs) = errors evs"
  by (simp add: show_cell_def Let_def case_prod_beta errors_append)

lemma show_cell_predict_calls: "predict_calls (show_cell d i j evs) = predict_calls evs"
  by (simp add: show_cell_def Let_def case_prod_beta predict_calls_append)

lemma three: "[0..<3] = [0, 1, 2]"
  by (simp add: upt_rec)

lemma show_row_unfold:
  "show_row d i evs = show_cell d i 2 (show_cell d i 1 (show_cell d i 0 (evs @ [StColumns 3])))"
  by (simp add: show_row_def grid_size_def three)

lemma show_row_shown:
  "shown (show_row d i evs) = shown evs @ map (cell d) [i * 3..<min (length d) (i * 3 + 3)]"
proof -
  have "[i * 3..<min (length d) (i * 3 + 3)]
      = (if i * 3 < length d then [i * 3] else [])
        @ (if i * 3 + 1 < length d then [i * 3 + 1] else [])
        @ (if i * 3 + 2 < length d then [i * 3 + 2] else [])"
    by (auto simp: min_def upt_rec)
  then show ?thesis
    by (simp add: show_row_unfold show_cell_shown shown_append)
qed

lemma show_row_errors: "errors (show_row d i evs) = errors evs"
  by (simp add: show_row_unfold show_cell_errors errors_append)

lemma show_row_predict_calls: "predict_calls (show_row d i evs) = predict_calls evs"
  by (simp add: show_row_unfold show_cell_predict_calls predict_calls_append)

lemma rows_shown:
  "shown (fold (show_row d) [0..<r] evs) = shown evs @ map (cell d) [0..<min (length d) (r * 3)]"
proof (induction r)
  case 0
  then show ?case by simp
next
  case (Suc r)
  have "[0..<min (length d) (r * 3)] @ [r * 3..<min (length d) (r * 3 + 3)]
      = [0..<min (length d) (Suc r * 3)]"
  proof (cases "length d \<le> r * 3")
    case True
    then show ?thesis by (simp add: min_def)
  next
    case False
    then have "min (length d) (r * 3) = r * 3" by simp
    moreover have "[0..<r * 3] @ [r * 3..<min (length d) (r * 3 + 3)]
        = [0..<min (length d) (r * 3 + 3)]"
    proof -
      from False obtain k where k: "min (length d) (r * 3 + 3) = r * 3 + k"
        by (metis le_add1 less_imp_le_nat min.boundedI nat_le_iff_add not_le)
      show ?thesis
        unfolding k using upt_add_eq_append [of 0 "r * 3" k] by simp
    qed
    ultimately show ?thesis by (simp add: add.commute)
  qed
  then show ?case
    using Suc by (simp add: show_row_shown flip: map_append)
qed

lemma rows_errors: "errors (fold (show_row d) [0..<r] evs) = errors evs"
  by (induction r) (simp_all add: show_row_errors)

lemma rows_predict_calls: "predict_calls (fold (show_row d) [0..<r] evs) = predict_calls evs"
  by (induction r) (simp_all add: show_row_predict_calls)

lemma map_cell: "map (cell d) [0..<length d] = map (\<lambda>(file_name, p). (p, caption_of file_name)) d"
  by (rule nth_equalityI) (simp_all add: cell_def case_prod_beta)

lemma show_grid_shown:
  "shown (show_grid d evs) = shown evs @ map (\<lambda>(file_name, p). (p, caption_of file_name)) d"
proof -
  have "length d \<le> ((length d + 3 - 1) div 3) * 3" by arith
  then have "min (length d) (((length d + 3 - 1) div 3) * 3) = length d" by simp
  then show ?thesis
    by (simp add: show_grid_def grid_size_def Let_def rows_shown map_cell)
qed

lemma show_grid_errors: "errors (show_grid d evs) = errors evs"
  by (simp add: show_grid_def Let_def rows_errors)

lemma show_grid_predict_calls: "predict_calls (show_grid d evs) = predict_calls evs"
  by (simp add: show_grid_def Let_def rows_predict_calls)

lemma app_predict_calls:
  "\<forall>call\<in>set (predict_calls (app pg b)). snd call = confidence_of pg"
proof -
  have sub: "\<forall>call\<in>set (concat (map (submitted_of b cf) files)). snd call = cf" for cf files
    by (auto simp: submitted_of_def split: if_splits sum.splits)
  have det: "\<forall>call\<in>set (predict_calls (snd (detect_images b dm cf files [] []))). snd call = cf"
    for dm cf files
    using sub [of cf files] by (simp add: detect_images_result)
  have grid: "predict_calls
      (case detect_images b dm cf files [] [] of
         (detected_images, evs) \<Rightarrow>
           if detected_images \<noteq> []
           then show_grid detected_images (evs @ [StWrite ''Detected Images:''])
           else evs)
      = predict_calls (snd (detect_images b dm cf files [] []))" for dm cf files
    by (simp add: case_prod_beta show_grid_predict_calls predict_calls_append)
  show ?thesis
    using det grid
    by (simp add: app_def Let_def split: sum.splits option.splits)
qed

text \<open>
  Claim C9. The slider of the zip page gives an integer from 25 to 100, and the
  confidence is that integer divided by 100: every call of \<open>predict\<close> made by the page
  carries a confidence between 0.25 and 1.
\<close>

theorem zip_confidence_range:
  assumes "25 \<le> slider pg ''Select Model Confidence'' 25 100 40"
    and "slider pg ''Select Model Confidence'' 25 100 40 \<le> 100"
  shows "\<forall>call\<in>set (predict_calls (app pg b)). 1 / 4 \<le> snd call \<and> snd call \<le> 1"
proof -
  have "1 / 4 \<le> confidence_of pg \<and> confidence_of pg \<le> 1"
    using assms by (simp add: confidence_of_def)
  with app_predict_calls [of pg b] show ?thesis by simp
qed

text \<open>
  With the slider at its lowest, 25, the four calls carry 0.25.
\<close>

theorem zip_confidence_range_witness:
  "map snd (predict_calls (app (visitor 25) toy_backend)) = [1 / 4, 1 / 4, 1 / 4, 1 / 4]
   \<and> 1 / 4 \<le> snd (hd (predict_calls (app (visitor 25) toy_backend)))
   \<and> snd (hd (predict_calls (app (visitor 25) toy_backend))) \<le> 1"
proof -
  let ?calls = "predict_calls (app (visitor 25) toy_backend)"
  have l: "25 \<le> slider (visitor 25) ''Select Model Confidence'' 25 100 40"
    and h: "slider (visitor 25) ''Select Model Confidence'' 25 100 40 \<le> 100"
    by (simp_all add: visitor_def)
  have c: "map snd ?calls = [1 / 4, 1 / 4, 1 / 4, 1 / 4]"
    by code_simp
  then have "?calls \<noteq> []" by auto
  then have "hd ?calls \<in> set ?calls" by simp
  with zip_confidence_range [OF l h, of toy_backend]
  have "1 / 4 \<le> snd (hd ?calls) \<and> snd (hd ?calls) \<le> 1" by blast
  with c show ?thesis by simp
qed

text \<open>
  Claim C10. With the model loaded and a readable archive uploaded, the page goes through
  the entries in the order of the archive. An entry is handed to detection only if its
  name, in lower case, ends in .jpg, .jpeg, .png, .bmp or .webp; the others leave no trace.
  An entry whose detection raises gives one diagnostic, and the entries after it are still
  processed; an entry whose detection succeeds gives exactly one picture in the grid,
  under its name, and the pictures of the grid are in the order of the archive.
\<close>

theorem zip_batch_detection:
  assumes "YOLO b DETECTION_MODEL = Inr detection_model"
    and "source_radio pg ''Select Source'' [IMAGE] = IMAGE"
    and "file_uploader pg ''Upload a ZIP file containing images...'' = Some zip_file"
    and "ZipFile b zip_file = Inr (readable files)"
  shows "shown (app pg b)
           = map (\<lambda>(file_name, detected_image). (detected_image, caption_of file_name))
               (concat (map (detected_of b detection_model (confidence_of pg)) files))
       \<and> errors (app pg b)
           = concat (map (error_of b detection_model (confidence_of pg)) files)
       \<and> predict_calls (app pg b)
           = concat (map (submitted_of b (confidence_of pg)) files)"
proof -
  let ?cf = "confidence_of pg"
  let ?run = "detect_images b detection_model ?cf files [] []"
  have ex: "extract_zip_in_memory b zip_file = Inr files"
    using assms(4) by (simp add: extract_zip_in_memory_def read_entries_readable)
  have a: "app pg b =
      (if fst ?run \<noteq> [] then show_grid (fst ?run) (snd ?run @ [StWrite ''Detected Images:''])
       else snd ?run)"
    using assms(1-3) ex by (simp add: app_def load_model_def Let_def case_prod_beta)
  have r: "fst ?run = concat (map (detected_of b detection_model ?cf) files)"
    "shown (snd ?run) = []"
    "errors (snd ?run) = concat (map (error_of b detection_model ?cf) files)"
    "predict_calls (snd ?run) = concat (map (submitted_of b ?cf) files)"
    using detect_images_result [of b detection_model ?cf files "[]" "[]"] by simp_all
  show ?thesis
  proof (cases "fst ?run = []")
    case True
    with a r show ?thesis by simp
  next
    case False
    with a r show ?thesis
      by (simp add: show_grid_shown show_grid_errors show_grid_predict_calls
          shown_append errors_append predict_calls_append)
  qed
qed

text \<open>
  The archive of seven entries: a.JPG, c.WebP and e.jpeg are shown, b.png and d.bmp are
  reported, notes.txt and f.gif are passed over.
\<close>

theorem zip_batch_detection_witness:
  "shown (app (visitor 40) toy_backend)
     = [(picture 1, ''Detected Image: a.JPG''), (picture 4, ''Detected Image: c.WebP''),
        (picture 6, ''Detected Image: e.jpeg'')]
   \<and> errors (app (visitor 40) toy_backend)
     = [''Error processing image b.png: engine fault'',
        ''Error processing image d.bmp: cannot identify image file'']
   \<and> predict_calls (app (visitor 40) toy_backend)
     = [(picture 1, 2 / 5), (picture 13, 2 / 5), (picture 4, 2 / 5), (picture 6, 2 / 5)]"
proof -
  have h1: "YOLO toy_backend DETECTION_MODEL = Inr toy_predictor"
    by (simp add: toy_backend_def)
  have h2: "source_radio (visitor 40) ''Select Source'' [IMAGE] = IMAGE"
    by (simp add: visitor_def)
  have h3: "file_uploader (visitor 40) ''Upload a ZIP file containing images...''
              = Some [80, 75, 3, 4]"
    by (simp add: visitor_def)
  have h4: "ZipFile toy_backend [80, 75, 3, 4] = Inr (readable toy_archive)"
    by (simp add: toy_backend_def)
  have d: "map (\<lambda>(file_name, detected_image). (detected_image, caption_of file_name))
        (concat (map (detected_of toy_backend toy_predictor (confidence_of (visitor 40)))
           toy_archive))
      = [(picture 1, ''Detected Image: a.JPG''), (picture 4, ''Detected Image: c.WebP''),
         (picture 6, ''Detected Image: e.jpeg'')]"
    by code_simp
  have e: "concat (map (error_of toy_backend toy_predictor (confidence_of (visitor 40)))
        toy_archive)
      = [''Error processing image b.png: engine fault'',
         ''Error processing image d.bmp: cannot identify image file'']"
    by code_simp
  have s: "concat (map (submitted_of toy_backend (confidence_of (visitor 40))) toy_archive)
      = [(picture 1, 2 / 5), (picture 13, 2 / 5), (picture 4, 2 / 5), (picture 6, 2 / 5)]"
    by code_simp
  from zip_batch_detection [OF h1 h2 h3 h4]
  show ?thesis unfolding d e s .
qed

end
